theory Spec2Isabelle
  imports Complex_Main "HOL-Library.Char_ord" "HOL-Library.List_Lexorder"
begin

section \<open>JavaScript containers\<close>

text \<open>
  A JavaScript \<^verbatim>\<open>Map\<close> keeps its entries in insertion order and holds every key once.
  It is modelled as an association list: \<^verbatim>\<open>set\<close> on a key already present replaces
  the value in place, \<^verbatim>\<open>set\<close> on a new key appends, \<^verbatim>\<open>delete\<close> drops the entry.
\<close>

type_synonym ('k, 'v) js_map = "('k \<times> 'v) list"

definition Map_keys :: "('k, 'v) js_map \<Rightarrow> 'k list" where
  "Map_keys m = map fst m"

definition Map_has :: "('k, 'v) js_map \<Rightarrow> 'k \<Rightarrow> bool" where
  "Map_has m k = (k \<in> set (Map_keys m))"

definition Map_get :: "('k, 'v) js_map \<Rightarrow> 'k \<Rightarrow> 'v option" where
  "Map_get m k = map_of m k"

fun Map_set :: "('k, 'v) js_map \<Rightarrow> 'k \<Rightarrow> 'v \<Rightarrow> ('k, 'v) js_map" where
  "Map_set [] k v = [(k, v)]"
| "Map_set ((k', v') # m) k v =
     (if k' = k then (k, v) # m else (k', v') # Map_set m k v)"

definition Map_delete :: "('k, 'v) js_map \<Rightarrow> 'k \<Rightarrow> ('k, 'v) js_map" where
  "Map_delete m k = filter (\<lambda>p. fst p \<noteq> k) m"

definition Map_size :: "('k, 'v) js_map \<Rightarrow> int" where
  "Map_size m = int (length m)"

text \<open>
  Truthiness of an optional string, as tested by \<^verbatim>\<open>if (oldestId)\<close>: \<^verbatim>\<open>null\<close>,
  \<^verbatim>\<open>undefined\<close> and the empty string are falsy.
\<close>

definition truthy :: "string option \<Rightarrow> bool" where
  "truthy x = (case x of None \<Rightarrow> False | Some s \<Rightarrow> s \<noteq> [])"

section \<open>CacheManager\<close>

text \<open>
  The manager keeps five collections (messages, users, channels, guilds, members), each
  with its own map of expiration times, a maximum size and a lifetime. The five
  \<^verbatim>\<open>add*\<close>, \<^verbatim>\<open>remove*\<close> and \<^verbatim>\<open>get*\<close> methods are the same code over different
  fields, so the model writes each once over the kind of entity. The parameter
  \<^verbatim>\<open>id\<close> of the source is written \<open>eid\<close>. Times are milliseconds as returned by \<^verbatim>\<open>Date.now()\<close>.
\<close>

datatype kind = Messages | Users | Channels | Guilds | Members

record cache_options =
  messageCacheMaxSize :: int
  messageCacheLifetime :: int
  messageSweepInterval :: int
  userCacheMaxSize :: int
  userCacheLifetime :: int
  channelCacheMaxSize :: int
  channelCacheLifetime :: int
  guildCacheMaxSize :: int
  guildCacheLifetime :: int
  memberCacheMaxSize :: int
  memberCacheLifetime :: int
  sweepInterval :: int

definition default_options :: cache_options where
  "default_options =
     \<lparr> messageCacheMaxSize = 200, messageCacheLifetime = 0, messageSweepInterval = 0,
       userCacheMaxSize = 1000, userCacheLifetime = 3600000,
       channelCacheMaxSize = 1000, channelCacheLifetime = 3600000,
       guildCacheMaxSize = 100, guildCacheLifetime = 3600000,
       memberCacheMaxSize = 2000, memberCacheLifetime = 3600000,
       sweepInterval = 300000 \<rparr>"

record 'v CacheManager =
  options :: cache_options
  messages :: "(string, 'v) js_map"
  users :: "(string, 'v) js_map"
  channels :: "(string, 'v) js_map"
  guilds :: "(string, 'v) js_map"
  members :: "(string, 'v) js_map"
  messageExpires :: "(string, int) js_map"
  userExpires :: "(string, int) js_map"
  channelExpires :: "(string, int) js_map"
  guildExpires :: "(string, int) js_map"
  memberExpires :: "(string, int) js_map"
  sweepTimer :: "int option"

text \<open>The constructor: empty maps, and the sweep timer armed when the interval is positive.\<close>

definition new_CacheManager :: "cache_options \<Rightarrow> 'v CacheManager" where
  "new_CacheManager opts =
     \<lparr> options = opts,
       messages = [], users = [], channels = [], guilds = [], members = [],
       messageExpires = [], userExpires = [], channelExpires = [], guildExpires = [],
       memberExpires = [],
       sweepTimer = (if sweepInterval opts > 0 then Some (sweepInterval opts) else None) \<rparr>"

fun maxSize :: "kind \<Rightarrow> cache_options \<Rightarrow> int" where
  "maxSize Messages opts = messageCacheMaxSize opts"
| "maxSize Users opts = userCacheMaxSize opts"
| "maxSize Channels opts = channelCacheMaxSize opts"
| "maxSize Guilds opts = guildCacheMaxSize opts"
| "maxSize Members opts = memberCacheMaxSize opts"

fun lifetime :: "kind \<Rightarrow> cache_options \<Rightarrow> int" where
  "lifetime Messages opts = messageCacheLifetime opts"
| "lifetime Users opts = userCacheLifetime opts"
| "lifetime Channels opts = channelCacheLifetime opts"
| "lifetime Guilds opts = guildCacheLifetime opts"
| "lifetime Members opts = memberCacheLifetime opts"

fun collection :: "kind \<Rightarrow> 'v CacheManager \<Rightarrow> (string, 'v) js_map" where
  "collection Messages c = messages c"
| "collection Users c = users c"
| "collection Channels c = channels c"
| "collection Guilds c = guilds c"
| "collection Members c = members c"

fun expirations :: "kind \<Rightarrow> 'v CacheManager \<Rightarrow> (string, int) js_map" where
  "expirations Messages c = messageExpires c"
| "expirations Users c = userExpires c"
| "expirations Channels c = channelExpires c"
| "expirations Guilds c = guildExpires c"
| "expirations Members c = memberExpires c"

fun set_collection :: "kind \<Rightarrow> (string, 'v) js_map \<Rightarrow> 'v CacheManager \<Rightarrow> 'v CacheManager" where
  "set_collection Messages m c = c\<lparr>messages := m\<rparr>"
| "set_collection Users m c = c\<lparr>users := m\<rparr>"
| "set_collection Channels m c = c\<lparr>channels := m\<rparr>"
| "set_collection Guilds m c = c\<lparr>guilds := m\<rparr>"
| "set_collection Members m c = c\<lparr>members := m\<rparr>"

fun set_expirations :: "kind \<Rightarrow> (string, int) js_map \<Rightarrow> 'v CacheManager \<Rightarrow> 'v CacheManager" where
  "set_expirations Messages m c = c\<lparr>messageExpires := m\<rparr>"
| "set_expirations Users m c = c\<lparr>userExpires := m\<rparr>"
| "set_expirations Channels m c = c\<lparr>channelExpires := m\<rparr>"
| "set_expirations Guilds m c = c\<lparr>guildExpires := m\<rparr>"
| "set_expirations Members m c = c\<lparr>memberExpires := m\<rparr>"

text \<open>
  \<^verbatim>\<open>_getOldestEntry(collection, expirations)\<close>. The loop keeps the identifier with the
  smallest expiration time seen so far; \<^verbatim>\<open>oldestTime\<close> starts at \<^verbatim>\<open>Infinity\<close>, written
  \<open>None\<close>. The comparison is strict, so the first of several equal times wins. When the
  loop leaves a falsy identifier the first key of the collection is returned.
\<close>

fun oldest_loop :: "(string, int) js_map \<Rightarrow> string option \<Rightarrow> int option \<Rightarrow> string option" where
  "oldest_loop [] oldestId oldestTime = oldestId"
| "oldest_loop ((eid, expireTime) # es) oldestId oldestTime =
     (if (case oldestTime of None \<Rightarrow> True | Some t \<Rightarrow> expireTime < t)
      then oldest_loop es (Some eid) (Some expireTime)
      else oldest_loop es oldestId oldestTime)"

definition getOldestEntry :: "(string, 'v) js_map \<Rightarrow> (string, int) js_map \<Rightarrow> string option" where
  "getOldestEntry coll exps =
     (if Map_size coll = 0 then None
      else let oldestId = oldest_loop exps None None
           in if \<not> truthy oldestId
              then (case Map_keys coll of [] \<Rightarrow> None | k # _ \<Rightarrow> Some k)
              else oldestId)"

text \<open>\<^verbatim>\<open>removeMessage(id)\<close> and its four siblings: both maps drop the key; the result says
  whether the collection held it.\<close>

definition remove :: "kind \<Rightarrow> 'v CacheManager \<Rightarrow> string \<Rightarrow> 'v CacheManager \<times> bool" where
  "remove k c eid =
     (let c1 = set_expirations k (Map_delete (expirations k c) eid) c
      in (set_collection k (Map_delete (collection k c1) eid) c1, Map_has (collection k c1) eid))"

text \<open>\<^verbatim>\<open>addMessage(id, data)\<close> and its four siblings, called at time \<open>now\<close>.\<close>

definition add :: "kind \<Rightarrow> 'v CacheManager \<Rightarrow> string \<Rightarrow> 'v \<Rightarrow> int \<Rightarrow> 'v CacheManager" where
  "add k c eid data now =
     (let c1 = (if Map_size (collection k c) \<ge> maxSize k (options c)
                then (case getOldestEntry (collection k c) (expirations k c) of
                        None \<Rightarrow> c
                      | Some oldestId \<Rightarrow>
                          if truthy (Some oldestId) then fst (remove k c oldestId) else c)
                else c);
          c2 = set_collection k (Map_set (collection k c1) eid data) c1
      in if lifetime k (options c2) > 0
         then set_expirations k (Map_set (expirations k c2) eid (now + lifetime k (options c2))) c2
         else c2)"

text \<open>\<^verbatim>\<open>getMessage(id)\<close> and its four siblings: the stored object, or \<^verbatim>\<open>null\<close>.\<close>

definition get :: "kind \<Rightarrow> 'v CacheManager \<Rightarrow> string \<Rightarrow> 'v option" where
  "get k c eid = Map_get (collection k c) eid"

text \<open>
  \<^verbatim>\<open>sweep()\<close>. For each kind with a positive lifetime the loop walks the expiration map
  and removes every entry whose time is strictly before \<open>now\<close>. The loop deletes only
  the entry it is visiting, which leaves the rest of a \<^verbatim>\<open>Map\<close> iteration untouched, so
  walking the entries as they were at the start visits the same entries.
\<close>

fun sweep_loop :: "kind \<Rightarrow> (string, int) js_map \<Rightarrow> int \<Rightarrow> 'v CacheManager \<Rightarrow> nat \<Rightarrow> 'v CacheManager \<times> nat" where
  "sweep_loop k [] now c deleted = (c, deleted)"
| "sweep_loop k ((eid, expireTime) # es) now c deleted =
     (if now > expireTime
      then sweep_loop k es now (fst (remove k c eid)) (deleted + 1)
      else sweep_loop k es now c deleted)"

definition sweep_kind :: "kind \<Rightarrow> int \<Rightarrow> 'v CacheManager \<Rightarrow> 'v CacheManager \<times> nat" where
  "sweep_kind k now c =
     (if lifetime k (options c) > 0 then sweep_loop k (expirations k c) now c 0 else (c, 0))"

record sweep_report =
  deletedMessages :: nat
  deletedUsers :: nat
  deletedChannels :: nat
  deletedGuilds :: nat
  deletedMembers :: nat

definition sweep :: "'v CacheManager \<Rightarrow> int \<Rightarrow> 'v CacheManager \<times> sweep_report" where
  "sweep c now =
     (let (c1, dm) = sweep_kind Messages now c;
          (c2, du) = sweep_kind Users now c1;
          (c3, dc) = sweep_kind Channels now c2;
          (c4, dg) = sweep_kind Guilds now c3;
          (c5, db) = sweep_kind Members now c4
      in (c5, \<lparr> deletedMessages = dm, deletedUsers = du, deletedChannels = dc,
                deletedGuilds = dg, deletedMembers = db \<rparr>))"

text \<open>\<^verbatim>\<open>destroy()\<close>: the timer is cancelled and every map cleared.\<close>

definition destroy :: "'v CacheManager \<Rightarrow> 'v CacheManager" where
  "destroy c =
     c\<lparr> sweepTimer := None,
        messages := [], users := [], channels := [], guilds := [], members := [],
        messageExpires := [], userExpires := [], channelExpires := [], guildExpires := [],
        memberExpires := [] \<rparr>"

text \<open>The calls a client of the manager can make, and a run of them from left to right.\<close>

datatype 'v cache_call =
    Add kind string 'v int
  | Remove kind string
  | Get kind string
  | Sweep int

fun call :: "'v CacheManager \<Rightarrow> 'v cache_call \<Rightarrow> 'v CacheManager" where
  "call c (Add k eid data now) = add k c eid data now"
| "call c (Remove k eid) = fst (remove k c eid)"
| "call c (Get k eid) = c"
| "call c (Sweep now) = fst (sweep c now)"

definition run :: "'v CacheManager \<Rightarrow> 'v cache_call list \<Rightarrow> 'v CacheManager" where
  "run c cs = foldl call c cs"

subsection \<open>Predicates used to state the properties of the cache\<close>

text \<open>
  A store is well formed when its collection holds every key once, every key with an
  expiration time is a key of the collection, no key is the empty string, and the
  collection is within its maximum size.
\<close>

definition store_ok :: "kind \<Rightarrow> 'v CacheManager \<Rightarrow> bool" where
  "store_ok k c \<longleftrightarrow>
     distinct (Map_keys (collection k c)) \<and>
     set (Map_keys (expirations k c)) \<subseteq> set (Map_keys (collection k c)) \<and>
     [] \<notin> set (Map_keys (collection k c)) \<and>
     Map_size (collection k c) \<le> maxSize k (options c)"

text \<open>A call that adds does so under a non-empty identifier.\<close>

fun nonempty_id :: "'v cache_call \<Rightarrow> bool" where
  "nonempty_id (Add k eid data now) = (eid \<noteq> [])"
| "nonempty_id _ = True"

text \<open>The manager as \<^verbatim>\<open>add\<close> leaves it after its first statement, the eviction.\<close>

definition evicted :: "kind \<Rightarrow> 'v CacheManager \<Rightarrow> 'v CacheManager" where
  "evicted k c =
     (if Map_size (collection k c) \<ge> maxSize k (options c)
      then (case getOldestEntry (collection k c) (expirations k c) of
              None \<Rightarrow> c
            | Some oldestId \<Rightarrow>
                if truthy (Some oldestId) then fst (remove k c oldestId) else c)
      else c)"

text \<open>The call adds the identifier \<open>eid\<close> to the store of kind \<open>k\<close>.\<close>

fun adds :: "kind \<Rightarrow> string \<Rightarrow> 'v cache_call \<Rightarrow> bool" where
  "adds k eid (Add k' eid' data now) = (k' = k \<and> eid' = eid)"
| "adds k eid _ = False"

text \<open>If the collection holds \<open>eid\<close>, an expiration time of at most \<open>d\<close> is recorded for it.\<close>

definition expires_by :: "kind \<Rightarrow> string \<Rightarrow> int \<Rightarrow> 'v CacheManager \<Rightarrow> bool" where
  "expires_by k eid d c \<longleftrightarrow>
     (Map_has (collection k c) eid \<longrightarrow> (\<exists>e. (eid, e) \<in> set (expirations k c) \<and> e \<le> d))"

section \<open>ThrottlingManager\<close>

text \<open>
  The manager keeps, for each formatted route, the times of the requests it let
  through, a queue of delayed requests and a flag set by a 429 failure. Its private
  fields \<^verbatim>\<open>_maxRequestsPerMinute\<close>, \<^verbatim>\<open>_bufferSize\<close>, \<^verbatim>\<open>_requestLog\<close>, \<^verbatim>\<open>_queue\<close>,
  \<^verbatim>\<open>_rateLimit\<close>, \<^verbatim>\<open>_limitTimers\<close> and \<^verbatim>\<open>_stats\<close> keep their names without the
  underscore; \<^verbatim>\<open>_retryAfter\<close> is \<open>throttleRetryAfter\<close>. Configured numbers are rationals,
  standing for the numbers of the source; times are milliseconds.

  A queued entry is a closure that calls \<^verbatim>\<open>_executeCallback\<close> with the route, the
  callback and the two functions of the caller's promise. The model queues a value of
  type \<open>'op\<close> that stands for that callback and promise.
\<close>

record throttle_options =
  opt_maxRequestsPerMinute :: "rat option"
  opt_retryAfter :: "rat option"
  opt_bufferSize :: "rat option"
  opt_enableLogging :: "bool option"

record throttle_stats =
  totalRequests :: nat
  throttledRequests :: nat
  succeededRequests :: nat
  failedRequests :: nat
  lastRequest :: "int option"

record 'op ThrottlingManager =
  maxRequestsPerMinute :: rat
  throttleRetryAfter :: rat
  bufferSize :: rat
  enableLogging :: bool
  requestLog :: "(string, int list) js_map"
  queue :: "(string, 'op list) js_map"
  rateLimit :: "(string, bool) js_map"
  limitTimers :: "(string, rat) js_map"
  stats :: throttle_stats

text \<open>\<^verbatim>\<open>x || d\<close> on an optional number: \<^verbatim>\<open>undefined\<close> and 0 give the default.\<close>

definition or_default :: "rat option \<Rightarrow> rat \<Rightarrow> rat" where
  "or_default x d = (case x of None \<Rightarrow> d | Some v \<Rightarrow> if v = 0 then d else v)"

definition zero_stats :: throttle_stats where
  "zero_stats =
     \<lparr> totalRequests = 0, throttledRequests = 0, succeededRequests = 0, failedRequests = 0,
       lastRequest = None \<rparr>"

definition new_ThrottlingManager :: "throttle_options \<Rightarrow> 'op ThrottlingManager" where
  "new_ThrottlingManager opts =
     \<lparr> maxRequestsPerMinute = or_default (opt_maxRequestsPerMinute opts) 50,
       throttleRetryAfter = or_default (opt_retryAfter opts) 2000,
       bufferSize = or_default (opt_bufferSize opts) (9 / 10),
       enableLogging = (case opt_enableLogging opts of None \<Rightarrow> False | Some b \<Rightarrow> b),
       requestLog = [], queue = [], rateLimit = [], limitTimers = [],
       stats = zero_stats \<rparr>"

text \<open>
  What a call does besides changing the manager: it calls a callback, pushes or shifts
  a queue entry, settles a caller's promise, or arms and clears a timer. A timer of the
  manager either runs \<^verbatim>\<open>_processQueue(route)\<close> or ends the rate limit of a route.
\<close>

datatype timer = ProcessQueueTimer string | LimitTimer string

datatype 'op action =
    Invoked string 'op
  | Enqueued string 'op
  | Dequeued string 'op
  | Resolved 'op
  | Rejected 'op
  | TimeoutSet timer rat
  | TimeoutCleared timer

text \<open>The entries of a map of lists under a key, empty when the key is absent.\<close>

definition entries_of :: "(string, 'a list) js_map \<Rightarrow> string \<Rightarrow> 'a list" where
  "entries_of m route = (case Map_get m route of None \<Rightarrow> [] | Some xs \<Rightarrow> xs)"

text \<open>\<^verbatim>\<open>this._rateLimit.get(route)\<close> read as a condition.\<close>

definition limited :: "'op ThrottlingManager \<Rightarrow> string \<Rightarrow> bool" where
  "limited tm route = (Map_get (rateLimit tm) route = Some True)"

text \<open>
  \<^verbatim>\<open>route.replace(/\d+/g, ':id')\<close>: every maximal run of decimal digits becomes
  \<^verbatim>\<open>:id\<close>. The flag says that the previous character was a digit, whose run has been
  replaced already.
\<close>

definition is_digit :: "char \<Rightarrow> bool" where
  "is_digit c = (c \<in> set ''0123456789'')"

fun replace_digits :: "bool \<Rightarrow> string \<Rightarrow> string" where
  "replace_digits in_run [] = []"
| "replace_digits in_run (c # cs) =
     (if is_digit c
      then (if in_run then replace_digits True cs else '':id'' @ replace_digits True cs)
      else c # replace_digits False cs)"

definition formatRoute :: "string \<Rightarrow> string" where
  "formatRoute route = replace_digits False route"

text \<open>\<^verbatim>\<open>_wouldExceedLimit(route)\<close> at time \<open>now\<close>: the answer and the manager with the
  pruned log.\<close>

definition wouldExceedLimit ::
    "'op ThrottlingManager \<Rightarrow> string \<Rightarrow> int \<Rightarrow> bool \<times> 'op ThrottlingManager" where
  "wouldExceedLimit tm route now =
     (if \<not> Map_has (requestLog tm) route
      then (False, tm\<lparr>requestLog := Map_set (requestLog tm) route []\<rparr>)
      else let oneMinuteAgo = now - 60000;
               recentRequests = filter (\<lambda>time. time > oneMinuteAgo) (entries_of (requestLog tm) route)
           in (of_nat (length recentRequests) \<ge> maxRequestsPerMinute tm * bufferSize tm,
               tm\<lparr>requestLog := Map_set (requestLog tm) route recentRequests\<rparr>))"

text \<open>\<^verbatim>\<open>_enqueue(route, callback)\<close>: the entry goes to the back of the queue of the route.\<close>

definition enqueue ::
    "'op ThrottlingManager \<Rightarrow> string \<Rightarrow> 'op \<Rightarrow> 'op ThrottlingManager \<times> 'op action list" where
  "enqueue tm route cb =
     (let q0 = (if \<not> Map_has (queue tm) route then Map_set (queue tm) route [] else queue tm);
          q1 = Map_set q0 route (entries_of q0 route @ [cb])
      in (tm\<lparr>queue := q1,
              stats := (stats tm)\<lparr>throttledRequests := throttledRequests (stats tm) + 1\<rparr>\<rparr>,
          [Enqueued route cb]))"

text \<open>\<^verbatim>\<open>_logRequest(route)\<close> at time \<open>now\<close>.\<close>

definition logRequest :: "'op ThrottlingManager \<Rightarrow> string \<Rightarrow> int \<Rightarrow> 'op ThrottlingManager" where
  "logRequest tm route now =
     (let l0 = (if \<not> Map_has (requestLog tm) route then Map_set (requestLog tm) route []
                else requestLog tm);
          l1 = Map_set l0 route (entries_of l0 route @ [now])
      in tm\<lparr>requestLog := l1,
             stats := (stats tm)\<lparr>lastRequest := Some now,
                                  totalRequests := totalRequests (stats tm) + 1,
                                  succeededRequests := succeededRequests (stats tm) + 1\<rparr>\<rparr>)"

text \<open>\<^verbatim>\<open>_logError(route, error)\<close>.\<close>

definition logError :: "'op ThrottlingManager \<Rightarrow> 'op ThrottlingManager" where
  "logError tm = tm\<lparr>stats := (stats tm)\<lparr>failedRequests := failedRequests (stats tm) + 1\<rparr>\<rparr>"

text \<open>
  \<^verbatim>\<open>_executeCallback(route, callback, resolve, reject)\<close> is an asynchronous function. Up
  to its \<^verbatim>\<open>await\<close> it logs the request and calls the callback; this is \<open>executeCallback\<close>.
  It resumes when the promise of the callback settles; this is \<open>executeCallback_settled\<close>,
  which takes the outcome: success, or a failure with the \<^verbatim>\<open>status\<close> of the error and
  the \<^verbatim>\<open>retry_after\<close> of its response data when present.
\<close>

datatype outcome = Success | Failure "int option" "rat option"

definition executeCallback ::
    "'op ThrottlingManager \<Rightarrow> string \<Rightarrow> 'op \<Rightarrow> int \<Rightarrow> 'op ThrottlingManager \<times> 'op action list" where
  "executeCallback tm route cb now = (logRequest tm route now, [Invoked route cb])"

text \<open>\<^verbatim>\<open>_handleRateLimit(route, retryAfter)\<close>. The stored timer handle is written as the
  delay of the timer; only its presence is read.\<close>

definition handleRateLimit ::
    "'op ThrottlingManager \<Rightarrow> string \<Rightarrow> rat \<Rightarrow> 'op ThrottlingManager \<times> 'op action list" where
  "handleRateLimit tm route retryAfter =
     (let tm1 = tm\<lparr>rateLimit := Map_set (rateLimit tm) route True\<rparr>;
          cleared = (if Map_has (limitTimers tm1) route then [TimeoutCleared (LimitTimer route)]
                     else [])
      in (tm1\<lparr>limitTimers := Map_set (limitTimers tm1) route retryAfter\<rparr>,
          cleared @ [TimeoutSet (LimitTimer route) retryAfter]))"

fun executeCallback_settled ::
    "'op ThrottlingManager \<Rightarrow> string \<Rightarrow> 'op \<Rightarrow> outcome \<Rightarrow> 'op ThrottlingManager \<times> 'op action list" where
  "executeCallback_settled tm route cb Success = (tm, [Resolved cb])"
| "executeCallback_settled tm route cb (Failure status retry_after) =
     (let tm1 = logError tm
      in if status = Some 429
         then (let retryAfter = or_default retry_after (throttleRetryAfter tm1);
                   (tm2, a2) = handleRateLimit tm1 route retryAfter;
                   (tm3, a3) = enqueue tm2 route cb
               in (tm3, a2 @ a3))
         else (tm1, [Rejected cb]))"

text \<open>\<^verbatim>\<open>_processQueue(route)\<close> at time \<open>now\<close>.\<close>

definition processQueue ::
    "'op ThrottlingManager \<Rightarrow> string \<Rightarrow> int \<Rightarrow> 'op ThrottlingManager \<times> 'op action list" where
  "processQueue tm route now =
     (if \<not> Map_has (queue tm) route \<or> length (entries_of (queue tm) route) = 0 then (tm, [])
      else let (exceeds, tm1) = wouldExceedLimit tm route now
           in if \<not> exceeds \<and> \<not> limited tm1 route
              then (case entries_of (queue tm1) route of
                      [] \<Rightarrow> (tm1, [])
                    | nextCallback # rest \<Rightarrow>
                        (let tm2 = tm1\<lparr>queue := Map_set (queue tm1) route rest\<rparr>;
                             (tm3, a3) = executeCallback tm2 route nextCallback now
                         in (tm3, [Dequeued route nextCallback] @ a3 @
                                    [TimeoutSet (ProcessQueueTimer route) 1000])))
              else (tm1, [TimeoutSet (ProcessQueueTimer route) (throttleRetryAfter tm1)]))"

text \<open>The callback of the timer that \<^verbatim>\<open>_handleRateLimit\<close> arms.\<close>

definition limitTimerFired ::
    "'op ThrottlingManager \<Rightarrow> string \<Rightarrow> int \<Rightarrow> 'op ThrottlingManager \<times> 'op action list" where
  "limitTimerFired tm route now =
     processQueue
       (tm\<lparr>rateLimit := Map_set (rateLimit tm) route False,
           limitTimers := Map_delete (limitTimers tm) route\<rparr>) route now"

text \<open>\<^verbatim>\<open>throttle(route, callback)\<close> at time \<open>now\<close>: the body of the promise it returns.\<close>

definition throttle ::
    "'op ThrottlingManager \<Rightarrow> string \<Rightarrow> 'op \<Rightarrow> int \<Rightarrow> 'op ThrottlingManager \<times> 'op action list" where
  "throttle tm route cb now =
     (let formattedRoute = formatRoute route
      in if limited tm formattedRoute then enqueue tm formattedRoute cb
         else let (exceeds, tm1) = wouldExceedLimit tm formattedRoute now
              in if exceeds
                 then (let (tm2, a2) = enqueue tm1 formattedRoute cb
                       in (tm2, a2 @ [TimeoutSet (ProcessQueueTimer formattedRoute)
                                        (throttleRetryAfter tm2)]))
                 else executeCallback tm1 formattedRoute cb now)"

text \<open>\<^verbatim>\<open>getStats()\<close>: the counters, the length of every queue, the routes under a limit.\<close>

definition getStats ::
    "'op ThrottlingManager \<Rightarrow> throttle_stats \<times> (string \<times> nat) list \<times> string list" where
  "getStats tm =
     (stats tm,
      map (\<lambda>(route, q). (route, length q)) (queue tm),
      map fst (filter snd (rateLimit tm)))"

text \<open>\<^verbatim>\<open>reset()\<close>.\<close>

definition reset :: "'op ThrottlingManager \<Rightarrow> 'op ThrottlingManager \<times> 'op action list" where
  "reset tm =
     (tm\<lparr>requestLog := [], queue := [], rateLimit := [], limitTimers := [], stats := zero_stats\<rparr>,
      map (\<lambda>(route, h). TimeoutCleared (LimitTimer route)) (limitTimers tm))"

text \<open>
  What can happen to a manager: a caller throttles an operation, the promise of a
  called operation settles, and the two kinds of timer fire. A run applies a list of
  such events in order and collects what the manager did.
\<close>

datatype 'op event =
    Throttle string 'op int
  | Settled string 'op outcome
  | ProcessQueueFires string int
  | LimitTimerFires string int

fun step :: "'op ThrottlingManager \<Rightarrow> 'op event \<Rightarrow> 'op ThrottlingManager \<times> 'op action list" where
  "step tm (Throttle route cb now) = throttle tm route cb now"
| "step tm (Settled route cb result) = executeCallback_settled tm route cb result"
| "step tm (ProcessQueueFires route now) = processQueue tm route now"
| "step tm (LimitTimerFires route now) = limitTimerFired tm route now"

fun run_events ::
    "'op ThrottlingManager \<Rightarrow> 'op event list \<Rightarrow> 'op ThrottlingManager \<times> 'op action list" where
  "run_events tm [] = (tm, [])"
| "run_events tm (e # es) =
     (let (tm1, a1) = step tm e; (tm2, a2) = run_events tm1 es in (tm2, a1 @ a2))"




subsection \<open>Predicates used to state the properties of the throttling manager\<close>


text \<open>The two request counters of the statistics moved by the same amount.\<close>

definition counted_alike :: "'op ThrottlingManager \<Rightarrow> 'op ThrottlingManager \<Rightarrow> bool" where
  "counted_alike tm tm' \<longleftrightarrow>
     totalRequests (stats tm') + succeededRequests (stats tm)
       = succeededRequests (stats tm') + totalRequests (stats tm)"

text \<open>The event is the failure of an operation of the route with status 429.\<close>

fun is_429_on :: "string \<Rightarrow> 'op event \<Rightarrow> bool" where
  "is_429_on r (Settled r' cb (Failure status retry_after)) = (r' = r \<and> status = Some 429)"
| "is_429_on r _ = False"

text \<open>
  Two managers used as examples. The first lets through one request a minute and has
  let one through at time 0. The second lets through two requests a minute and has let
  two through at time 0, as in the scenario of the specification.
\<close>

definition one_a_minute :: throttle_options where
  "one_a_minute =
     \<lparr> opt_maxRequestsPerMinute = Some 1, opt_retryAfter = None, opt_bufferSize = Some 1,
       opt_enableLogging = None \<rparr>"



section \<open>RESTManager\<close>

text \<open>
  The manager keeps its timing options and the table \<^verbatim>\<open>_rateLimits\<close>. An entry of the
  table is written in two shapes by the source; the record has the fields of both, and a
  field that an entry lacks, or a number that is \<^verbatim>\<open>NaN\<close>, is \<open>None\<close>. Header names are
  in lower case, as the HTTP library delivers them. The field \<open>api_text\<close> is the text that
  \<^verbatim>\<open>${this.api}\<close> produces in \<^verbatim>\<open>make\<close>.
\<close>

record rate_limit_info =
  info_limited :: "bool option"
  info_limit :: "int option"
  info_remaining :: "int option"
  info_reset :: "int option"
  info_path :: "string option"

record RESTManager =
  restTimeOffset :: int
  restRequestTimeout :: int
  retryLimit :: int
  retryAfter :: int
  rateLimits :: "(string, rate_limit_info) js_map"
  api_text :: string

record rest_options =
  o_restTimeOffset :: "int option"
  o_restRequestTimeout :: "int option"
  o_retryLimit :: "int option"

text \<open>\<^verbatim>\<open>a || b || d\<close> on optional numbers.\<close>

definition first_truthy :: "int option \<Rightarrow> int option \<Rightarrow> int \<Rightarrow> int" where
  "first_truthy a b d =
     (case a of
        Some x \<Rightarrow> if x \<noteq> 0 then x else (case b of Some y \<Rightarrow> if y \<noteq> 0 then y else d | None \<Rightarrow> d)
      | None \<Rightarrow> (case b of Some y \<Rightarrow> if y \<noteq> 0 then y else d | None \<Rightarrow> d))"

text \<open>The constructor, from its own options and those of the client.\<close>

definition new_RESTManager :: "rest_options \<Rightarrow> rest_options \<Rightarrow> string \<Rightarrow> RESTManager" where
  "new_RESTManager opts client_opts api =
     \<lparr> restTimeOffset = first_truthy (o_restTimeOffset opts) (o_restTimeOffset client_opts) 500,
       restRequestTimeout =
         first_truthy (o_restRequestTimeout opts) (o_restRequestTimeout client_opts) 15000,
       retryLimit = first_truthy (o_retryLimit opts) (o_retryLimit client_opts) 3,
       retryAfter = 1000,
       rateLimits = [],
       api_text = api \<rparr>"

text \<open>The options of the client as its constructor sets them.\<close>

definition client_rest_options :: rest_options where
  "client_rest_options =
     \<lparr> o_restTimeOffset = Some 500, o_restRequestTimeout = Some 15000, o_retryLimit = Some 1 \<rparr>"

definition no_rest_options :: rest_options where
  "no_rest_options = \<lparr> o_restTimeOffset = None, o_restRequestTimeout = None, o_retryLimit = None \<rparr>"

subsection \<open>Reading numbers from headers\<close>

text \<open>
  \<^verbatim>\<open>parseInt(text)\<close> without a radix: leading white space is skipped, a sign is read,
  a prefix \<^verbatim>\<open>0x\<close> selects base 16, and the longest run of digits of the base is the
  number; with no digit the result is \<^verbatim>\<open>NaN\<close>, written \<open>None\<close>.
\<close>

definition is_space :: "char \<Rightarrow> bool" where
  "is_space c = (c \<in> set [CHR '' '', CHR 0x09, CHR 0x0A, CHR 0x0B, CHR 0x0C, CHR 0x0D])"

definition digit_of :: "char \<Rightarrow> nat option" where
  "digit_of c =
     map_of [(CHR ''0'', 0), (CHR ''1'', 1), (CHR ''2'', 2), (CHR ''3'', 3), (CHR ''4'', 4),
             (CHR ''5'', 5), (CHR ''6'', 6), (CHR ''7'', 7), (CHR ''8'', 8), (CHR ''9'', 9),
             (CHR ''a'', 10), (CHR ''b'', 11), (CHR ''c'', 12), (CHR ''d'', 13), (CHR ''e'', 14),
             (CHR ''f'', 15), (CHR ''A'', 10), (CHR ''B'', 11), (CHR ''C'', 12), (CHR ''D'', 13),
             (CHR ''E'', 14), (CHR ''F'', 15)] c"

fun read_digits :: "nat \<Rightarrow> string \<Rightarrow> nat option \<Rightarrow> nat option" where
  "read_digits base [] acc = acc"
| "read_digits base (c # cs) acc =
     (case digit_of c of
        None \<Rightarrow> acc
      | Some d \<Rightarrow>
          if d < base
          then read_digits base cs (Some ((case acc of None \<Rightarrow> 0 | Some n \<Rightarrow> n) * base + d))
          else acc)"

definition read_unsigned :: "string \<Rightarrow> nat option" where
  "read_unsigned s =
     (case s of
        c0 # c1 # rest \<Rightarrow>
          if c0 = CHR ''0'' \<and> (c1 = CHR ''x'' \<or> c1 = CHR ''X'') then read_digits 16 rest None
          else read_digits 10 s None
      | _ \<Rightarrow> read_digits 10 s None)"

definition parseInt :: "string \<Rightarrow> int option" where
  "parseInt text =
     (case dropWhile is_space text of
        [] \<Rightarrow> None
      | c # rest \<Rightarrow>
          if c = CHR ''-'' then map_option (\<lambda>n. - int n) (read_unsigned rest)
          else if c = CHR ''+'' then map_option int (read_unsigned rest)
          else map_option int (read_unsigned (c # rest)))"

subsection \<open>Responses and what a call does\<close>

text \<open>
  A call of the HTTP library ends in one of three ways: with a response (returned, or
  carried by the error as \<^verbatim>\<open>error.response\<close>), with a request made and no response
  (\<^verbatim>\<open>error.request\<close>), or with an error raised before a request was made. The
  environment of a call is the list of these endings for its successive attempts, each
  with the number that \<^verbatim>\<open>Math.floor(Math.random() * 1000)\<close> yields at that attempt.
\<close>

record 'd response =
  status :: int
  headers :: "(string \<times> string) list"
  data :: 'd

datatype 'd axios_result = Responded "'d response" | NoResponse | SetupFailed string

type_synonym 'd environment = "('d axios_result \<times> nat) list"

text \<open>The options of a request; \<open>http_method\<close> is the field \<^verbatim>\<open>method\<close>.\<close>

record request_options =
  http_method :: string
  url :: string
  params :: "(string \<times> string) list"

text \<open>
  The errors a call is rejected with: the five messages the manager creates, the
  message for any other status, and an error of the HTTP library passed on unchanged.
\<close>

datatype rest_error =
    UNAUTHORIZED | FORBIDDEN | NOT_FOUND | SERVER_ERROR | REQUEST_TIMEOUT
  | UNKNOWN_ERROR int
  | Raw string

datatype 'd settlement = Resolves 'd | Rejects rest_error

text \<open>What a call does on the way: it sends a request or waits on a timer.\<close>

datatype rest_action = Sent | Waited "int option"

definition header :: "'d response \<Rightarrow> string \<Rightarrow> string option" where
  "header response name = map_of (headers response) name"

text \<open>\<^verbatim>\<open>_processRateLimit(response, path)\<close>.\<close>

definition processRateLimit :: "RESTManager \<Rightarrow> 'd response \<Rightarrow> string \<Rightarrow> RESTManager" where
  "processRateLimit rm response path =
     (case (header response ''x-ratelimit-bucket'', header response ''x-ratelimit-remaining'',
            header response ''x-ratelimit-reset'') of
        (Some bucket, Some remaining, Some reset_text) \<Rightarrow>
          if bucket \<noteq> []
          then rm\<lparr>rateLimits := Map_set (rateLimits rm) bucket
                  \<lparr> info_limited = None,
                    info_limit = (case header response ''x-ratelimit-limit'' of
                                    None \<Rightarrow> None | Some limit \<Rightarrow> parseInt limit),
                    info_remaining = parseInt remaining,
                    info_reset = map_option (\<lambda>n. n * 1000) (parseInt reset_text),
                    info_path = Some path \<rparr>\<rparr>
          else rm
      | _ \<Rightarrow> rm)"

text \<open>The delay of a retry after a failure that is not a 429: between 1000 and 1999.\<close>

definition backoff :: "nat \<Rightarrow> int" where
  "backoff random = int (random mod 1000) + 1000"

text \<open>
  \<^verbatim>\<open>_request(options, retryCount)\<close> and \<^verbatim>\<open>_handleResponse(response, requestOptions,
  retryCount)\<close>, which call each other. The result is the manager, what the call did, and
  how its promise settled; \<open>None\<close> says that the environment has no further ending to
  give, so that the promise is still pending.
\<close>

fun request ::
    "RESTManager \<Rightarrow> request_options \<Rightarrow> int \<Rightarrow> 'd environment
       \<Rightarrow> RESTManager \<times> rest_action list \<times> 'd settlement option"
  and handleResponse ::
    "RESTManager \<Rightarrow> 'd response \<Rightarrow> request_options \<Rightarrow> int \<Rightarrow> nat \<Rightarrow> 'd environment
       \<Rightarrow> RESTManager \<times> rest_action list \<times> 'd settlement option" where
  "request rm opts retryCount [] = (rm, [], None)"
| "request rm opts retryCount ((Responded response, random) # env) =
     (let (rm1, acts, result) = handleResponse rm response opts retryCount random env
      in (rm1, Sent # acts, result))"
| "request rm opts retryCount ((NoResponse, random) # env) =
     (if retryCount < retryLimit rm
      then (let (rm1, acts, result) = request rm opts (retryCount + 1) env
            in (rm1, Sent # Waited (Some (backoff random)) # acts, result))
      else (rm, [Sent], Some (Rejects REQUEST_TIMEOUT)))"
| "request rm opts retryCount ((SetupFailed error, random) # env) =
     (rm, [], Some (Rejects (Raw error)))"
| "handleResponse rm response opts retryCount random env =
     (let rm1 = processRateLimit rm response (url opts)
      in if 200 \<le> status response \<and> status response < 300
         then (rm1, [], Some (Resolves (data response)))
         else if status response = 429
         then (let wait = (case header response ''retry-after'' of
                             None \<Rightarrow> Some (retryAfter rm1)
                           | Some text \<Rightarrow>
                               if text = [] then Some (retryAfter rm1)
                               else map_option (\<lambda>n. n * 1000) (parseInt text));
                   (rm2, acts, result) = request rm1 opts retryCount env
               in (rm2, Waited wait # acts, result))
         else if status response = 401 then (rm1, [], Some (Rejects UNAUTHORIZED))
         else if status response = 403 then (rm1, [], Some (Rejects FORBIDDEN))
         else if status response = 404 then (rm1, [], Some (Rejects NOT_FOUND))
         else if status response \<in> {500, 502, 503, 504}
         then (if retryCount < retryLimit rm1
               then (let (rm2, acts, result) = request rm1 opts (retryCount + 1) env
                     in (rm2, Waited (Some (backoff random)) # acts, result))
               else (rm1, [], Some (Rejects SERVER_ERROR)))
         else (rm1, [], Some (Rejects (UNKNOWN_ERROR (status response)))))"

text \<open>\<^verbatim>\<open>make(method, path, options)\<close>, with the query of the options; it is written
  \<open>rest_make\<close>.\<close>

definition upper :: "char \<Rightarrow> char" where
  "upper c =
     (case map_of (zip ''abcdefghijklmnopqrstuvwxyz'' ''ABCDEFGHIJKLMNOPQRSTUVWXYZ'') c of
        None \<Rightarrow> c | Some u \<Rightarrow> u)"

definition rest_make ::
    "RESTManager \<Rightarrow> string \<Rightarrow> string \<Rightarrow> (string \<times> string) list \<Rightarrow> 'd environment
       \<Rightarrow> RESTManager \<times> rest_action list \<times> 'd settlement option" where
  "rest_make rm meth path query env =
     request rm
       \<lparr> http_method = map upper meth,
         url = (if take 8 path = ''https://'' then path else api_text rm @ path),
         params = query \<rparr>
       0 env"

subsection \<open>The check before a request of the manager's own HTTP instance\<close>

text \<open>
  \<^verbatim>\<open>_getAPIRoute(config)\<close>: every \<^verbatim>\<open>/\<close> followed by digits becomes \<^verbatim>\<open>/:id\<close>, the
  parameters with a truthy value follow in the order of their sorted keys, and the verb
  comes first. The flag of \<open>replace_ids\<close> says that the digits being read belong to a
  segment replaced already. Parameter values are texts, truthy when not empty.
\<close>

fun replace_ids :: "bool \<Rightarrow> string \<Rightarrow> string" where
  "replace_ids skipping [] = []"
| "replace_ids skipping (c # cs) =
     (if skipping \<and> is_digit c then replace_ids True cs
      else if c = CHR ''/'' \<and> (case cs of [] \<Rightarrow> False | d # _ \<Rightarrow> is_digit d)
      then ''/:id'' @ replace_ids True cs
      else c # replace_ids False cs)"

definition getAPIRoute :: "request_options \<Rightarrow> string" where
  "getAPIRoute config =
     http_method config @ '':'' @ replace_ids False (url config) @
     concat (map (\<lambda>key. case map_of (params config) key of
                           None \<Rightarrow> []
                         | Some v \<Rightarrow> if v = [] then [] else ''&'' @ key @ ''='' @ v)
                 (sort (remdups (map fst (params config)))))"

text \<open>
  \<^verbatim>\<open>_handleRateLimit(config)\<close> at time \<open>now\<close>, the request interceptor of the instance
  \<^verbatim>\<open>this.api\<close>: the time it waits before the request goes on, if it waits.
\<close>

definition rest_handleRateLimit :: "RESTManager \<Rightarrow> request_options \<Rightarrow> int \<Rightarrow> rest_action list" where
  "rest_handleRateLimit rm config now =
     (case Map_get (rateLimits rm) (getAPIRoute config) of
        None \<Rightarrow> []
      | Some rateLimitInfo \<Rightarrow>
          if info_limited rateLimitInfo = Some True
          then (case info_reset rateLimitInfo of
                  None \<Rightarrow> []
                | Some reset_time \<Rightarrow>
                    if now < reset_time
                    then [Waited (Some (reset_time - now + restTimeOffset rm))]
                    else [])
          else [])"

subsection \<open>Predicates and examples used to state the properties of the REST manager\<close>

text \<open>The error is one of the messages the manager creates itself.\<close>

fun catalogued :: "rest_error \<Rightarrow> bool" where
  "catalogued (Raw error) = False"
| "catalogued _ = True"

text \<open>The errors that the HTTP library raises before a request is made, in an environment.\<close>

fun setup_errors :: "'d environment \<Rightarrow> string list" where
  "setup_errors [] = []"
| "setup_errors ((SetupFailed error, random) # env) = error # setup_errors env"
| "setup_errors (_ # env) = setup_errors env"

text \<open>The ending of an attempt is anything but a response with status 429.\<close>

fun other_than_429 :: "'d axios_result \<times> nat \<Rightarrow> bool" where
  "other_than_429 (Responded response, random) = (status response \<noteq> 429)"
| "other_than_429 _ = True"

text \<open>The number of requests sent in the course of a call.\<close>

definition sent_count :: "rest_action list \<Rightarrow> nat" where
  "sent_count acts = length (filter (\<lambda>a. a = Sent) acts)"

text \<open>The time a call spends waiting at least: the sum of its positive delays.\<close>

fun waited_at_least :: "rest_action list \<Rightarrow> int" where
  "waited_at_least [] = 0"
| "waited_at_least (Waited (Some d) # acts) = max d 0 + waited_at_least acts"
| "waited_at_least (_ # acts) = waited_at_least acts"

text \<open>
  A manager made by a client with its default options, so with a retry limit of 1, and
  three responses: a 429 that asks for a retry after 2 seconds, a success whose headers
  say that the bucket \<^verbatim>\<open>abc\<close> has no request remaining until second 9000, and a plain
  success.
\<close>

definition client_manager :: RESTManager where
  "client_manager = new_RESTManager no_rest_options client_rest_options ''api''"

definition too_many_requests :: "string response" where
  "too_many_requests = \<lparr> status = 429, headers = [(''retry-after'', ''2'')], data = ''rate limited'' \<rparr>"

definition last_of_bucket :: "string response" where
  "last_of_bucket =
     \<lparr> status = 200,
       headers = [(''x-ratelimit-bucket'', ''abc''), (''x-ratelimit-remaining'', ''0''),
                  (''x-ratelimit-reset'', ''9000'')],
       data = ''first'' \<rparr>"

definition plain_success :: "string response" where
  "plain_success = \<lparr> status = 200, headers = [], data = ''second'' \<rparr>"

text \<open>
  A manager whose table marks the route of \<^verbatim>\<open>GET /x\<close> as limited until time 5000, as
  \<^verbatim>\<open>_updateRateLimit\<close> writes it.
\<close>

definition get_x :: request_options where
  "get_x = \<lparr> http_method = ''GET'', url = ''/x'', params = [] \<rparr>"

definition limited_manager :: RESTManager where
  "limited_manager =
     client_manager\<lparr>rateLimits :=
       [(''GET:/x'', \<lparr> info_limited = Some True, info_limit = Some 5, info_remaining = Some 0,
                      info_reset = Some 5000, info_path = None \<rparr>)]\<rparr>"

section \<open>Client: the gateway connection\<close>

definition HEARTBEAT :: int where "HEARTBEAT = 1"
definition IDENTIFY :: int where "IDENTIFY = 2"















subsection \<open>Predicates and examples used to state the properties of the connection\<close>






section \<open>CacheManager: facts about the maps and the stores\<close>

lemma keys_Map_set: "Map_keys (Map_set m k v) = (if k \<in> set (Map_keys m) then Map_keys m else Map_keys m @ [k])"
  by (induction m k v rule: Map_set.induct) (auto simp: Map_keys_def)

lemma length_Map_set: "length (Map_set m k v) = (if k \<in> set (Map_keys m) then length m else Suc (length m))"
  by (induction m k v rule: Map_set.induct) (auto simp: Map_keys_def)

lemma keys_Map_delete: "Map_keys (Map_delete m k) = filter (\<lambda>x. x \<noteq> k) (Map_keys m)"
  by (induction m) (auto simp: Map_keys_def Map_delete_def)

lemma filter_neq_absent: "k \<notin> set xs \<Longrightarrow> filter (\<lambda>x. x \<noteq> k) xs = xs"
  by (induction xs) auto

lemma length_filter_neq_distinct: "distinct xs \<Longrightarrow> k \<in> set xs \<Longrightarrow> Suc (length (filter (\<lambda>x. x \<noteq> k) xs)) = length xs"
  by (induction xs) (auto simp: filter_neq_absent)

lemma length_Map_keys: "length (Map_keys m) = length m"
  by (simp add: Map_keys_def)

lemma length_Map_delete: "distinct (Map_keys m) \<Longrightarrow> k \<in> set (Map_keys m) \<Longrightarrow> Suc (length (Map_delete m k)) = length m"
  using length_filter_neq_distinct[of "Map_keys m" k] keys_Map_delete[of m k] length_Map_keys[of m]
    length_Map_keys[of "Map_delete m k"] by simp

lemma length_Map_delete_le: "length (Map_delete m k) \<le> length m"
  by (simp add: Map_delete_def)

lemma collection_set_collection: "collection k (set_collection k' m c) = (if k = k' then m else collection k c)"
  by (cases k; cases k') simp_all

lemma collection_set_expirations: "collection k (set_expirations k' m c) = collection k c"
  by (cases k; cases k') simp_all

lemma expirations_set_expirations: "expirations k (set_expirations k' m c) = (if k = k' then m else expirations k c)"
  by (cases k; cases k') simp_all

lemma expirations_set_collection: "expirations k (set_collection k' m c) = expirations k c"
  by (cases k; cases k') simp_all

lemma options_set_collection: "options (set_collection k m c) = options c"
  by (cases k) simp_all

lemma options_set_expirations: "options (set_expirations k m c) = options c"
  by (cases k) simp_all

lemmas store_fields = collection_set_collection collection_set_expirations
  expirations_set_expirations expirations_set_collection options_set_collection
  options_set_expirations

lemma collection_remove: "collection k' (fst (remove k c i)) = (if k' = k then Map_delete (collection k c) i else collection k' c)"
  by (simp add: remove_def Let_def store_fields)

lemma expirations_remove: "expirations k' (fst (remove k c i)) = (if k' = k then Map_delete (expirations k c) i else expirations k' c)"
  by (simp add: remove_def Let_def store_fields)

lemma options_remove: "options (fst (remove k c i)) = options c"
  by (simp add: remove_def Let_def store_fields)

lemma store_ok_remove: "store_ok k' c \<Longrightarrow> store_ok k' (fst (remove k c i))"
  unfolding store_ok_def
  using length_Map_delete_le[of "collection k c" i]
  by (auto simp: collection_remove expirations_remove options_remove keys_Map_delete Map_size_def)

lemma oldest_loop_mem: "oldest_loop es oid ot = Some i \<Longrightarrow> oid = Some i \<or> i \<in> set (Map_keys es)"
  by (induction es oid ot rule: oldest_loop.induct) (auto simp: Map_keys_def split: if_splits)

lemma getOldestEntry_mem:
  "getOldestEntry coll exps = Some i \<Longrightarrow> i \<in> set (Map_keys coll) \<or> i \<in> set (Map_keys exps)"
  unfolding getOldestEntry_def Let_def
  by (auto split: if_splits list.splits dest: oldest_loop_mem)

lemma getOldestEntry_Some:
  "coll \<noteq> [] \<Longrightarrow> \<exists>i. getOldestEntry coll exps = Some i"
  unfolding getOldestEntry_def Let_def
  by (cases coll) (auto simp: Map_size_def Map_keys_def truthy_def split: option.splits)

lemma add_evicted: "add k c eid entry now =
  (let c2 = set_collection k (Map_set (collection k (evicted k c)) eid entry) (evicted k c)
      in if lifetime k (options c2) > 0
         then set_expirations k (Map_set (expirations k c2) eid (now + lifetime k (options c2))) c2
         else c2)"
  by (simp add: add_def evicted_def Let_def)

lemma options_evicted: "options (evicted k c) = options c"
  by (simp add: evicted_def options_remove split: option.splits)

lemma evicted_other: "k' \<noteq> k \<Longrightarrow> collection k' (evicted k c) = collection k' c \<and> expirations k' (evicted k c) = expirations k' c"
  by (simp add: evicted_def collection_remove expirations_remove split: option.splits)

lemma store_ok_evicted: "store_ok k' c \<Longrightarrow> store_ok k' (evicted k c)"
  by (simp add: evicted_def store_ok_remove split: option.splits)

lemma evicted_room:
  assumes ok: "store_ok k c" and pos: "1 \<le> maxSize k (options c)"
  shows "Map_size (collection k (evicted k c)) < maxSize k (options c)"
proof (cases "Map_size (collection k c) \<ge> maxSize k (options c)")
  case False
  then show ?thesis by (simp add: evicted_def)
next
  case True
  with pos have ne: "collection k c \<noteq> []" by (auto simp: Map_size_def)
  then obtain i where i: "getOldestEntry (collection k c) (expirations k c) = Some i"
    using getOldestEntry_Some by blast
  from getOldestEntry_mem[OF i] ok have mem: "i \<in> set (Map_keys (collection k c))"
    by (auto simp: store_ok_def)
  with ok have "i \<noteq> []" by (auto simp: store_ok_def)
  then have ev: "evicted k c = fst (remove k c i)"
    using True i by (simp add: evicted_def truthy_def)
  from ok have "distinct (Map_keys (collection k c))" by (simp add: store_ok_def)
  from length_Map_delete[OF this mem]
  have "Map_size (Map_delete (collection k c) i) < Map_size (collection k c)"
    by (simp add: Map_size_def)
  moreover from ok have "Map_size (collection k c) \<le> maxSize k (options c)"
    by (simp add: store_ok_def)
  ultimately show ?thesis by (simp add: ev collection_remove)
qed

lemma store_ok_add_same:
  assumes ok: "store_ok k c" and pos: "1 \<le> maxSize k (options c)" and ne: "eid \<noteq> []"
  shows "store_ok k (add k c eid entry now)"
proof -
  let ?e = "evicted k c"
  have oke: "store_ok k ?e" using ok by (rule store_ok_evicted)
  have room: "Map_size (collection k ?e) < maxSize k (options c)"
    using ok pos by (rule evicted_room)
  have len: "Map_size (Map_set (collection k ?e) eid entry) \<le> maxSize k (options c)"
    using room by (simp add: Map_size_def length_Map_set)
  show ?thesis
    using oke len ne
    unfolding store_ok_def add_evicted Let_def
    by (auto simp: store_fields keys_Map_set options_evicted)
qed

lemma store_ok_add_other:
  assumes ok: "store_ok k' c" and "k' \<noteq> k"
  shows "store_ok k' (add k c eid entry now)"
  using assms evicted_other[of k' k c]
  unfolding store_ok_def add_evicted Let_def
  by (auto simp: store_fields options_evicted)

lemma store_ok_add:
  "store_ok k' c \<Longrightarrow> 1 \<le> maxSize k' (options c) \<Longrightarrow> eid \<noteq> [] \<Longrightarrow> store_ok k' (add k c eid entry now)"
  by (cases "k' = k") (auto intro: store_ok_add_same store_ok_add_other)

lemma sweep_loop_ok: "store_ok k' c \<Longrightarrow> store_ok k' (fst (sweep_loop k es now c n))"
  by (induction k es now c n rule: sweep_loop.induct) (auto intro: store_ok_remove)

lemma options_sweep_loop: "options (fst (sweep_loop k es now c n)) = options c"
  by (induction k es now c n rule: sweep_loop.induct) (auto simp: options_remove)

lemma store_ok_sweep_kind: "store_ok k' c \<Longrightarrow> store_ok k' (fst (sweep_kind k now c))"
  by (simp add: sweep_kind_def sweep_loop_ok)

lemma options_sweep_kind: "options (fst (sweep_kind k now c)) = options c"
  by (simp add: sweep_kind_def options_sweep_loop)

lemma sweep_fst: "fst (sweep c now) =
  fst (sweep_kind Members now (fst (sweep_kind Guilds now (fst (sweep_kind Channels now
    (fst (sweep_kind Users now (fst (sweep_kind Messages now c)))))))))"
  by (simp add: sweep_def Let_def split: prod.splits)

lemma store_ok_sweep: "store_ok k' c \<Longrightarrow> store_ok k' (fst (sweep c now))"
  by (simp add: sweep_fst store_ok_sweep_kind)

lemma options_sweep: "options (fst (sweep c now)) = options c"
  by (simp add: sweep_fst options_sweep_kind)

lemma options_add: "options (add k c eid entry now) = options c"
  by (simp add: add_evicted Let_def store_fields options_evicted)

lemma options_call: "options (call c x) = options c"
  by (cases x) (simp_all add: options_add options_remove options_sweep)

lemma store_ok_call:
  "store_ok k c \<Longrightarrow> 1 \<le> maxSize k (options c) \<Longrightarrow> nonempty_id x \<Longrightarrow> store_ok k (call c x)"
  by (cases x) (simp_all add: store_ok_add store_ok_remove store_ok_sweep)

lemma store_ok_run:
  "store_ok k c \<Longrightarrow> 1 \<le> maxSize k (options c) \<Longrightarrow> list_all nonempty_id cs \<Longrightarrow> store_ok k (run c cs)"
  unfolding run_def
proof (induction cs arbitrary: c)
  case Nil
  then show ?case by simp
next
  case (Cons x cs)
  then show ?case using store_ok_call[of k c x] options_call[of c x] by simp
qed

lemma store_ok_new: "0 \<le> maxSize k opts \<Longrightarrow> store_ok k (new_CacheManager opts)"
  by (cases k) (simp_all add: store_ok_def new_CacheManager_def Map_keys_def Map_size_def)

lemma options_run: "options (run c cs) = options c"
  unfolding run_def by (induction cs arbitrary: c) (simp_all add: options_call)

lemma Map_has_delete: "Map_has (Map_delete m i) j \<longleftrightarrow> Map_has m j \<and> j \<noteq> i"
  by (auto simp: Map_has_def keys_Map_delete)

lemma Map_has_set: "Map_has (Map_set m i v) j \<longleftrightarrow> Map_has m j \<or> j = i"
  by (auto simp: Map_has_def keys_Map_set)

lemma in_Map_delete: "p \<in> set (Map_delete m i) \<longleftrightarrow> p \<in> set m \<and> fst p \<noteq> i"
  by (auto simp: Map_delete_def)

lemma in_Map_set_other: "fst p \<noteq> i \<Longrightarrow> p \<in> set (Map_set m i v) \<longleftrightarrow> p \<in> set m"
  by (induction m i v rule: Map_set.induct) auto

lemma in_Map_set_same: "(i, v) \<in> set (Map_set m i v)"
  by (induction m i v rule: Map_set.induct) auto

lemma Map_get_None: "Map_get m k = None \<longleftrightarrow> \<not> Map_has m k"
  by (simp add: Map_get_def Map_has_def Map_keys_def map_of_eq_None_iff)

lemma expires_by_remove: "expires_by k eid d c \<Longrightarrow> expires_by k eid d (fst (remove k' c i))"
  unfolding expires_by_def
  by (auto simp: collection_remove expirations_remove Map_has_delete in_Map_delete)

lemma absent_remove: "\<not> Map_has (collection k c) eid \<Longrightarrow> \<not> Map_has (collection k (fst (remove k' c i))) eid"
  by (auto simp: collection_remove Map_has_delete)

lemma expires_by_evicted: "expires_by k eid d c \<Longrightarrow> expires_by k eid d (evicted k' c)"
  by (simp add: evicted_def expires_by_remove split: option.splits)

lemma absent_evicted: "\<not> Map_has (collection k c) eid \<Longrightarrow> \<not> Map_has (collection k (evicted k' c)) eid"
  by (simp add: evicted_def absent_remove split: option.splits)

lemma expires_by_add_other:
  assumes "expires_by k eid d c" and "k' \<noteq> k \<or> eid' \<noteq> eid"
  shows "expires_by k eid d (add k' c eid' entry now)"
proof -
  have e: "expires_by k eid d (evicted k' c)" using assms(1) by (rule expires_by_evicted)
  show ?thesis
  proof (cases "k' = k")
    case False
    with e show ?thesis
      unfolding expires_by_def add_evicted Let_def by (auto simp: store_fields)
  next
    case True
    with assms(2) have ne: "eid' \<noteq> eid" by simp
    with e True show ?thesis
      unfolding expires_by_def add_evicted Let_def
      by (auto simp: store_fields Map_has_set in_Map_set_other)
  qed
qed

lemma absent_add_other:
  assumes "\<not> Map_has (collection k c) eid" and "k' \<noteq> k \<or> eid' \<noteq> eid"
  shows "\<not> Map_has (collection k (add k' c eid' entry now)) eid"
  using absent_evicted[OF assms(1), of k'] assms(2)
  unfolding add_evicted Let_def by (auto simp: store_fields Map_has_set)

lemma expires_by_add_same:
  assumes "0 < lifetime k (options c)"
  shows "expires_by k eid (now + lifetime k (options c)) (add k c eid entry now)"
  using assms in_Map_set_same[of eid "now + lifetime k (options c)"]
  unfolding expires_by_def add_evicted Let_def
  by (auto simp: store_fields options_evicted)

lemma expires_by_sweep_loop:
  "expires_by k eid d c \<Longrightarrow> expires_by k eid d (fst (sweep_loop k' es now c n))"
  by (induction k' es now c n rule: sweep_loop.induct) (auto intro: expires_by_remove)

lemma absent_sweep_loop:
  "\<not> Map_has (collection k c) eid \<Longrightarrow> \<not> Map_has (collection k (fst (sweep_loop k' es now c n))) eid"
  by (induction k' es now c n rule: sweep_loop.induct) (simp_all add: absent_remove)

lemma swept_sweep_loop:
  "(eid, e) \<in> set es \<Longrightarrow> e < now \<Longrightarrow> \<not> Map_has (collection k (fst (sweep_loop k es now c n))) eid"
proof (induction k es now c n rule: sweep_loop.induct)
  case (1 k now c deleted)
  then show ?case by simp
next
  case (2 k i expireTime es now c deleted)
  show ?case
  proof (cases "(eid, e) = (i, expireTime)")
    case True
    then have "\<not> Map_has (collection k (fst (remove k c i))) eid"
      by (simp add: collection_remove Map_has_delete)
    then show ?thesis using True "2.prems" by (simp add: absent_sweep_loop)
  next
    case False
    with "2.prems" have "(eid, e) \<in> set es" by auto
    with 2 show ?thesis by simp
  qed
qed

lemma expires_by_sweep_kind:
  "expires_by k eid d c \<Longrightarrow> expires_by k eid d (fst (sweep_kind k' now c))"
  by (simp add: sweep_kind_def expires_by_sweep_loop)

lemma absent_sweep_kind:
  "\<not> Map_has (collection k c) eid \<Longrightarrow> \<not> Map_has (collection k (fst (sweep_kind k' now c))) eid"
  by (simp add: sweep_kind_def absent_sweep_loop)

lemma swept_sweep_kind:
  assumes "expires_by k eid d c" and "d < now" and "0 < lifetime k (options c)"
  shows "\<not> Map_has (collection k (fst (sweep_kind k now c))) eid"
proof (cases "Map_has (collection k c) eid")
  case False
  then show ?thesis by (rule absent_sweep_kind)
next
  case True
  with assms(1) obtain e where "(eid, e) \<in> set (expirations k c)" "e \<le> d"
    by (auto simp: expires_by_def)
  with assms(2,3) show ?thesis by (simp add: sweep_kind_def swept_sweep_loop)
qed

lemma expires_by_sweep: "expires_by k eid d c \<Longrightarrow> expires_by k eid d (fst (sweep c now))"
  by (simp add: sweep_fst expires_by_sweep_kind)

lemma absent_sweep: "\<not> Map_has (collection k c) eid \<Longrightarrow> \<not> Map_has (collection k (fst (sweep c now))) eid"
  by (simp add: sweep_fst absent_sweep_kind)

lemma sweep_foldl: "fst (sweep c now) =
  foldl (\<lambda>c k. fst (sweep_kind k now c)) c [Messages, Users, Channels, Guilds, Members]"
  by (simp add: sweep_fst)

lemma absent_sweep_kinds:
  "\<not> Map_has (collection k c) eid \<Longrightarrow>
   \<not> Map_has (collection k (foldl (\<lambda>c k. fst (sweep_kind k now c)) c ks)) eid"
  by (induction ks arbitrary: c) (simp_all add: absent_sweep_kind)

lemma swept_sweep_kinds:
  assumes "k \<in> set ks" and "expires_by k eid d c" and "d < now" and "0 < lifetime k (options c)"
  shows "\<not> Map_has (collection k (foldl (\<lambda>c k. fst (sweep_kind k now c)) c ks)) eid"
  using assms
proof (induction ks arbitrary: c)
  case Nil
  then show ?case by simp
next
  case (Cons k' ks)
  let ?c' = "fst (sweep_kind k' now c)"
  show ?case
  proof (cases "k' = k")
    case True
    with Cons.prems have "\<not> Map_has (collection k ?c') eid"
      by (simp add: swept_sweep_kind)
    then show ?thesis by (simp add: absent_sweep_kinds)
  next
    case False
    with Cons.prems have "k \<in> set ks" by simp
    moreover have "expires_by k eid d ?c'" using Cons.prems(2) by (rule expires_by_sweep_kind)
    moreover have "0 < lifetime k (options ?c')" using Cons.prems(4) by (simp add: options_sweep_kind)
    ultimately show ?thesis using Cons.IH[of ?c'] Cons.prems(3) by simp
  qed
qed

lemma swept_sweep:
  assumes "expires_by k eid d c" and "d < now" and "0 < lifetime k (options c)"
  shows "\<not> Map_has (collection k (fst (sweep c now))) eid"
proof -
  have mem: "k \<in> set [Messages, Users, Channels, Guilds, Members]" by (cases k) simp_all
  show ?thesis unfolding sweep_foldl by (rule swept_sweep_kinds[OF mem assms])
qed

lemma expires_by_call: "expires_by k eid d c \<Longrightarrow> \<not> adds k eid x \<Longrightarrow> expires_by k eid d (call c x)"
  by (cases x) (auto simp: expires_by_add_other expires_by_remove expires_by_sweep)

lemma absent_call: "\<not> Map_has (collection k c) eid \<Longrightarrow> \<not> adds k eid x \<Longrightarrow> \<not> Map_has (collection k (call c x)) eid"
  by (cases x) (auto simp: absent_add_other absent_remove absent_sweep)

lemma expires_by_run: "expires_by k eid d c \<Longrightarrow> \<not> list_ex (adds k eid) cs \<Longrightarrow> expires_by k eid d (run c cs)"
  unfolding run_def by (induction cs arbitrary: c) (simp_all add: expires_by_call)

lemma absent_run: "\<not> Map_has (collection k c) eid \<Longrightarrow> \<not> list_ex (adds k eid) cs \<Longrightarrow> \<not> Map_has (collection k (run c cs)) eid"
  unfolding run_def by (induction cs arbitrary: c) (simp_all add: absent_call)

lemma oldest_loop_least:
  "oldest_loop es (Some i0) (Some t0) = Some r \<Longrightarrow>
     \<exists>e. (r, e) \<in> set ((i0, t0) # es) \<and> (\<forall>p \<in> set ((i0, t0) # es). e \<le> snd p)"
proof (induction es arbitrary: i0 t0)
  case Nil
  then show ?case by simp
next
  case (Cons x es)
  obtain j e1 where x: "x = (j, e1)" by (cases x)
  show ?case
  proof (cases "e1 < t0")
    case True
    with Cons.prems x have "oldest_loop es (Some j) (Some e1) = Some r" by simp
    from Cons.IH[OF this] obtain e where "(r, e) \<in> set ((j, e1) # es)"
      "\<forall>p \<in> set ((j, e1) # es). e \<le> snd p" by blast
    with True x show ?thesis by (intro exI[of _ e]) auto
  next
    case False
    with Cons.prems x have "oldest_loop es (Some i0) (Some t0) = Some r" by simp
    from Cons.IH[OF this] obtain e where "(r, e) \<in> set ((i0, t0) # es)"
      "\<forall>p \<in> set ((i0, t0) # es). e \<le> snd p" by blast
    with False x show ?thesis by (intro exI[of _ e]) auto
  qed
qed

lemma oldest_loop_start:
  "es \<noteq> [] \<Longrightarrow> \<exists>r e. oldest_loop es None None = Some r \<and> (r, e) \<in> set es \<and> (\<forall>p \<in> set es. e \<le> snd p)"
proof (cases es)
  case Nil
  assume "es \<noteq> []" with Nil show ?thesis by simp
next
  case (Cons x es')
  obtain j e1 where x: "x = (j, e1)" by (cases x)
  have "\<exists>r. oldest_loop es' (Some j) (Some e1) = Some r"
    by (induction es' arbitrary: j e1) auto
  then obtain r where r: "oldest_loop es' (Some j) (Some e1) = Some r" ..
  from oldest_loop_least[OF r] Cons x r show ?thesis by auto
qed

section \<open>ThrottlingManager: facts about the queues, the counters and the limits\<close>

lemma Map_get_set: "Map_get (Map_set m k v) k' = (if k' = k then Some v else Map_get m k')"
  by (induction m k v rule: Map_set.induct) (auto simp: Map_get_def)

lemma Map_get_delete: "Map_get (Map_delete m k) k' = (if k' = k then None else Map_get m k')"
  by (induction m) (auto simp: Map_get_def Map_delete_def)




lemma wouldExceedLimit_frame:
  "queue (snd (wouldExceedLimit tm r now)) = queue tm"
  "rateLimit (snd (wouldExceedLimit tm r now)) = rateLimit tm"
  "stats (snd (wouldExceedLimit tm r now)) = stats tm"
  "throttleRetryAfter (snd (wouldExceedLimit tm r now)) = throttleRetryAfter tm"
  by (simp_all add: wouldExceedLimit_def Let_def)

lemma logRequest_frame:
  "queue (logRequest tm r now) = queue tm"
  "rateLimit (logRequest tm r now) = rateLimit tm"
  by (simp_all add: logRequest_def Let_def)
















lemma counted_alike_refl: "counted_alike tm tm"
  by (simp add: counted_alike_def)

lemma counted_alike_trans: "counted_alike a b \<Longrightarrow> counted_alike b c \<Longrightarrow> counted_alike a c"
  by (simp add: counted_alike_def)

lemma counted_wouldExceedLimit: "counted_alike tm (snd (wouldExceedLimit tm r now))"
  by (simp add: counted_alike_def wouldExceedLimit_frame)

lemma counted_logRequest: "counted_alike tm (logRequest tm r now)"
  by (simp add: counted_alike_def logRequest_def Let_def)

lemma counted_enqueue: "counted_alike tm (fst (enqueue tm r cb))"
  by (simp add: counted_alike_def enqueue_def Let_def)

lemma counted_handleRateLimit: "counted_alike tm (fst (handleRateLimit tm r d))"
  by (simp add: counted_alike_def handleRateLimit_def Let_def)

lemma counted_logError: "counted_alike tm (logError tm)"
  by (simp add: counted_alike_def logError_def)

lemma counted_executeCallback: "counted_alike tm (fst (executeCallback tm r cb now))"
  by (simp add: executeCallback_def counted_logRequest)

lemma counted_settled: "counted_alike tm (fst (executeCallback_settled tm r cb res))"
proof (cases res)
  case Success
  then show ?thesis by (simp add: counted_alike_refl)
next
  case (Failure code ra)
  then show ?thesis
    by (auto simp: Let_def split: prod.splits
        intro: counted_logError
        dest!: arg_cong[where f = fst]
        simp: counted_alike_def logError_def enqueue_def handleRateLimit_def)
qed

lemma counted_processQueue: "counted_alike tm (fst (processQueue tm r now))"
  using counted_wouldExceedLimit[of tm r now]
  by (auto simp: processQueue_def executeCallback_def Let_def counted_alike_refl
      counted_alike_def logRequest_def
      split: prod.splits list.splits)

lemma counted_limitTimerFired: "counted_alike tm (fst (limitTimerFired tm r now))"
  using counted_processQueue[of "tm\<lparr>rateLimit := Map_set (rateLimit tm) r False,
           limitTimers := Map_delete (limitTimers tm) r\<rparr>" r now]
  by (simp add: limitTimerFired_def counted_alike_def)

lemma counted_throttle: "counted_alike tm (fst (throttle tm route cb now))"
  using counted_wouldExceedLimit[of tm "formatRoute route" now]
  by (auto simp: throttle_def executeCallback_def Let_def counted_alike_def logRequest_def
      enqueue_def split: prod.splits)

lemma counted_step: "counted_alike tm (fst (step tm e))"
  by (cases e) (simp_all add: counted_throttle counted_settled counted_processQueue
      counted_limitTimerFired)

lemma fst_run_events_Cons:
  "fst (run_events tm (e # es)) = fst (run_events (fst (step tm e)) es)"
  by (simp add: case_prod_beta Let_def)

lemma counted_run: "counted_alike tm (fst (run_events tm es))"
proof (induction es arbitrary: tm)
  case Nil
  then show ?case by (simp add: counted_alike_refl)
next
  case (Cons e es)
  from counted_step[of tm e] Cons.IH[of "fst (step tm e)"]
  have "counted_alike tm (fst (run_events (fst (step tm e)) es))"
    by (rule counted_alike_trans)
  then show ?case by (simp only: fst_run_events_Cons)
qed

lemma failure_counted_as_failed:
  "failedRequests (stats (fst (executeCallback_settled tm r cb (Failure code ra))))
     = failedRequests (stats tm) + 1 \<and>
   succeededRequests (stats (fst (executeCallback_settled tm r cb (Failure code ra))))
     = succeededRequests (stats tm) \<and>
   totalRequests (stats (fst (executeCallback_settled tm r cb (Failure code ra))))
     = totalRequests (stats tm)"
  by (simp add: Let_def logError_def enqueue_def handleRateLimit_def split: prod.splits)

lemma limited_wouldExceedLimit: "limited (snd (wouldExceedLimit tm r now)) q = limited tm q"
  by (simp add: limited_def wouldExceedLimit_frame)

lemma limited_logRequest: "limited (logRequest tm r now) q = limited tm q"
  by (simp add: limited_def logRequest_frame)

lemma limited_enqueue: "limited (fst (enqueue tm r cb)) q = limited tm q"
  by (simp add: limited_def enqueue_def Let_def)

lemma rateLimit_enqueue: "rateLimit (fst (enqueue tm r cb)) = rateLimit tm"
  by (simp add: enqueue_def Let_def)

lemma rateLimit_processQueue: "rateLimit (fst (processQueue tm r now)) = rateLimit tm"
  by (simp add: processQueue_def case_prod_beta Let_def executeCallback_def logRequest_frame
      wouldExceedLimit_frame split: list.splits)

lemma limited_processQueue: "limited (fst (processQueue tm r now)) q = limited tm q"
  by (simp add: limited_def rateLimit_processQueue)

lemma limited_limitTimerFired: "limited (fst (limitTimerFired tm r now)) q \<Longrightarrow> limited tm q"
  by (auto simp: limitTimerFired_def rateLimit_processQueue limited_def Map_get_set split: if_splits)

lemma rateLimit_throttle: "rateLimit (fst (throttle tm route cb now)) = rateLimit tm"
  by (simp add: throttle_def case_prod_beta Let_def executeCallback_def logRequest_frame
      wouldExceedLimit_frame rateLimit_enqueue)

lemma limited_throttle: "limited (fst (throttle tm route cb now)) q = limited tm q"
  by (simp add: limited_def rateLimit_throttle)

lemma limited_settled:
  "limited (fst (executeCallback_settled tm r cb res)) q \<Longrightarrow>
     limited tm q \<or> is_429_on q (Settled r cb res)"
  by (cases res)
     (auto simp: Let_def limited_def logError_def enqueue_def handleRateLimit_def Map_get_set
        split: prod.splits if_splits)

lemma limited_step: "limited (fst (step tm e)) q \<Longrightarrow> limited tm q \<or> is_429_on q e"
  by (cases e) (auto simp: limited_throttle limited_processQueue
      dest: limited_settled limited_limitTimerFired)

lemma limited_run:
  "limited (fst (run_events tm es)) q \<Longrightarrow> limited tm q \<or> list_ex (is_429_on q) es"
proof (induction es arbitrary: tm)
  case Nil
  then show ?case by simp
next
  case (Cons e es)
  from Cons.prems have "limited (fst (run_events (fst (step tm e)) es)) q"
    by (simp only: fst_run_events_Cons)
  from Cons.IH[OF this] show ?case using limited_step[of tm e q] by auto
qed

lemma not_limited_new: "\<not> limited (new_ThrottlingManager opts) q"
  by (simp add: limited_def new_ThrottlingManager_def Map_get_def)

section \<open>RESTManager: facts about retries, settlements and the check before a request\<close>

lemma retryLimit_processRateLimit: "retryLimit (processRateLimit rm response path) = retryLimit rm"
  by (simp add: processRateLimit_def split: option.splits)

lemma retryAfter_processRateLimit: "retryAfter (processRateLimit rm response path) = retryAfter rm"
  by (simp add: processRateLimit_def split: option.splits)

lemma rejection_kinds:
  "snd (snd (request rm opts retryCount env)) = Some (Rejects e) \<Longrightarrow>
     catalogued e \<or> (\<exists>x. e = Raw x \<and> x \<in> set (setup_errors env))"
  "snd (snd (handleResponse rm response opts retryCount random env)) = Some (Rejects e) \<Longrightarrow>
     catalogued e \<or> (\<exists>x. e = Raw x \<and> x \<in> set (setup_errors env))"
proof (induction rm opts retryCount env and rm response opts retryCount random env
    rule: request_handleResponse.induct)
  case (1 rm opts retryCount)
  then show ?case by simp
next
  case (2 rm opts retryCount response random env)
  then show ?case by (simp add: case_prod_beta)
next
  case (3 rm opts retryCount random env)
  then show ?case by (auto simp: case_prod_beta split: if_splits)
next
  case (4 rm opts retryCount error random env)
  then show ?case by auto
next
  case (5 rm response opts retryCount random env)
  then show ?case
    by (auto simp: case_prod_beta Let_def retryLimit_processRateLimit split: if_splits)
qed

lemma settles:
  "nat (retryLimit rm - retryCount) < length (filter other_than_429 env) \<Longrightarrow>
     \<exists>out. snd (snd (request rm opts retryCount env)) = Some out"
  "(if status response = 429
    then nat (retryLimit rm - retryCount) < length (filter other_than_429 env)
    else nat (retryLimit rm - retryCount) \<le> length (filter other_than_429 env)) \<Longrightarrow>
     \<exists>out. snd (snd (handleResponse rm response opts retryCount random env)) = Some out"
proof (induction rm opts retryCount env and rm response opts retryCount random env
    rule: request_handleResponse.induct)
  case (1 rm opts retryCount)
  then show ?case by simp
next
  case (2 rm opts retryCount response random env)
  then show ?case by (auto simp: case_prod_beta split: if_splits)
next
  case (3 rm opts retryCount random env)
  show ?case
  proof (cases "retryCount < retryLimit rm")
    case True
    with "3.prems" have "nat (retryLimit rm - (retryCount + 1)) < length (filter other_than_429 env)"
      by auto
    with True "3.IH" show ?thesis by (simp add: case_prod_beta)
  next
    case False
    then show ?thesis by simp
  qed
next
  case (4 rm opts retryCount error random env)
  then show ?case by simp
next
  case (5 rm response opts retryCount random env)
  let ?rm1 = "processRateLimit rm response (url opts)"
  have lim: "retryLimit ?rm1 = retryLimit rm" by (rule retryLimit_processRateLimit)
  show ?case
  proof (cases "status response = 429")
    case True
    with "5.prems" have "nat (retryLimit ?rm1 - retryCount) < length (filter other_than_429 env)"
      by (simp add: lim)
    with True "5.IH"(1)[OF refl _ True refl] show ?thesis
      by (simp add: case_prod_beta Let_def)
  next
    case False
    show ?thesis
    proof (cases "status response \<in> {500, 502, 503, 504} \<and> retryCount < retryLimit ?rm1")
      case retry: True
      with False "5.prems" have
        "nat (retryLimit ?rm1 - (retryCount + 1)) < length (filter other_than_429 env)"
        by (auto simp: lim)
      with retry False "5.IH"(2)[OF refl] show ?thesis
        by (auto simp: case_prod_beta Let_def)
    next
      case no: False
      with False show ?thesis by (auto simp: case_prod_beta Let_def)
    qed
  qed
qed

lemma request_starts_by_sending:
  "fst (snd (request rm opts retryCount env)) = [] \<or>
   hd (fst (snd (request rm opts retryCount env))) = Sent"
proof (cases env)
  case Nil
  then show ?thesis by simp
next
  case (Cons x env')
  obtain res random where x: "x = (res, random)" by (cases x)
  show ?thesis using Cons x by (cases res) (simp_all add: case_prod_beta)
qed

lemma retried_after_every_429:
  assumes "status r = 429" and "200 \<le> status ok" and "status ok < 300"
  shows "sent_count (fst (snd (request rm opts retryCount
            (replicate n (Responded r, random) @ [(Responded ok, random')])))) = n + 1 \<and>
         snd (snd (request rm opts retryCount
            (replicate n (Responded r, random) @ [(Responded ok, random')]))) = Some (Resolves (data ok))"
  using assms
proof (induction n arbitrary: rm)
  case 0
  then show ?case by (simp add: sent_count_def)
next
  case (Suc n)
  from Suc.IH[of "processRateLimit rm r (url opts)"] Suc.prems
  show ?case by (simp add: case_prod_beta Let_def sent_count_def)
qed

lemma pre_send_check_wait:
  assumes "Map_get (rateLimits rm) (getAPIRoute config) = Some rateLimitInfo"
    and "info_limited rateLimitInfo = Some True"
    and "info_reset rateLimitInfo = Some reset_time"
    and "now < reset_time"
  shows "rest_handleRateLimit rm config now = [Waited (Some (reset_time - now + restTimeOffset rm))]"
  using assms by (simp add: rest_handleRateLimit_def)

lemma resolution_is_response_data:
  "snd (snd (request rm opts retryCount env)) = Some (Resolves d) \<Longrightarrow>
     \<exists>response random. (Responded response, random) \<in> set env \<and>
        200 \<le> status response \<and> status response < 300 \<and> d = data response"
  "snd (snd (handleResponse rm response opts retryCount random env)) = Some (Resolves d) \<Longrightarrow>
     (200 \<le> status response \<and> status response < 300 \<and> d = data response) \<or>
     (\<exists>response' random'. (Responded response', random') \<in> set env \<and>
        200 \<le> status response' \<and> status response' < 300 \<and> d = data response')"
proof (induction rm opts retryCount env and rm response opts retryCount random env
    rule: request_handleResponse.induct)
  case (1 rm opts retryCount)
  then show ?case by simp
next
  case (2 rm opts retryCount response random env)
  then show ?case by (auto simp: case_prod_beta)
next
  case (3 rm opts retryCount random env)
  then show ?case by (auto simp: case_prod_beta split: if_splits)
next
  case (4 rm opts retryCount error random env)
  then show ?case by simp
next
  case (5 rm response opts retryCount random env)
  then show ?case
    by (auto simp: case_prod_beta Let_def retryLimit_processRateLimit split: if_splits)
qed


section \<open>Client: facts about the heartbeat timer\<close>














section \<open>CacheManager: the size bound, the eviction target and expiry\<close>

text \<open>
  Claim C4 (amended). For every store of a CacheManager whose configured maximum size is
  at least 1, and every sequence of add, get, remove and sweep calls made on a freshly
  constructed manager in which entries are added under non-empty identifiers, the
  number of entries of the store is at most its maximum size after every call. The
  bound is enforced by \<^verbatim>\<open>add\<close> itself, whether or not a sweep ever runs.
\<close>

theorem cache_count_within_maxSize:
  assumes "1 \<le> maxSize k opts" and "list_all nonempty_id cs"
  shows "Map_size (collection k (run (new_CacheManager opts) cs)) \<le> maxSize k opts"
proof -
  have opts: "options (new_CacheManager opts :: 'a CacheManager) = opts"
    by (simp add: new_CacheManager_def)
  have "store_ok k (new_CacheManager opts :: 'a CacheManager)"
    using assms(1) by (simp add: store_ok_new)
  moreover have "1 \<le> maxSize k (options (new_CacheManager opts :: 'a CacheManager))"
    using assms(1) by (simp only: opts)
  ultimately have "store_ok k (run (new_CacheManager opts :: 'a CacheManager) cs)"
    using assms(2) by (rule store_ok_run)
  then show ?thesis by (simp add: store_ok_def options_run new_CacheManager_def)
qed

text \<open>
  The bound at a concrete run: a message store of maximum size 2 that receives three
  messages and a sweep.
\<close>

theorem cache_count_within_maxSize_witness:
  "1 \<le> maxSize Messages (default_options\<lparr>messageCacheMaxSize := 2\<rparr>) \<and>
   list_all nonempty_id
     [Add Messages ''a'' () 0, Add Messages ''b'' () 1, Sweep 2, Add Messages ''c'' () 3] \<and>
   Map_size (collection Messages
     (run (new_CacheManager (default_options\<lparr>messageCacheMaxSize := 2\<rparr>))
        [Add Messages ''a'' () 0, Add Messages ''b'' () 1, Sweep 2, Add Messages ''c'' () 3]))
     \<le> maxSize Messages (default_options\<lparr>messageCacheMaxSize := 2\<rparr>)"
  using cache_count_within_maxSize
    [where k = Messages and opts = "default_options\<lparr>messageCacheMaxSize := 2\<rparr>"
       and cs = "[Add Messages ''a'' () 0, Add Messages ''b'' () 1, Sweep 2, Add Messages ''c'' () 3]"]
  by simp

text \<open>
  Claim C4 as stated fails. With a maximum size of 0 there is nothing to evict and the
  entry is inserted all the same, so the store holds one entry. With a maximum size of 1
  and a first entry stored under the empty identifier, the eviction is skipped because
  the identifier is falsy, and the store holds two entries.
\<close>

theorem cache_count_exceeds_maxSize:
  "\<not> Map_size (collection Messages
        (run (new_CacheManager (default_options\<lparr>messageCacheMaxSize := 0\<rparr>))
           [Add Messages ''a'' () 0]))
      \<le> maxSize Messages (default_options\<lparr>messageCacheMaxSize := 0\<rparr>) \<and>
   \<not> Map_size (collection Messages
        (run (new_CacheManager (default_options\<lparr>messageCacheMaxSize := 1\<rparr>))
           [Add Messages [] () 0, Add Messages ''b'' () 1]))
      \<le> maxSize Messages (default_options\<lparr>messageCacheMaxSize := 1\<rparr>)"
  by (simp add: run_def add_def getOldestEntry_def truthy_def remove_def Map_size_def
      Map_keys_def Map_has_def Map_delete_def new_CacheManager_def default_options_def Let_def)

text \<open>
  The eviction target when identifiers are non-empty: a full store with expiration
  times loses an entry whose expiration time is the least one recorded, and a full
  store without expiration times loses its first-inserted entry.
\<close>

lemma add_evicts_earliest_expiration:
  assumes ok: "store_ok k c"
    and full: "maxSize k (options c) \<le> Map_size (collection k c)"
    and exps: "expirations k c \<noteq> []"
  shows "\<exists>i e. (i, e) \<in> set (expirations k c) \<and> (\<forall>p \<in> set (expirations k c). e \<le> snd p) \<and>
           collection k (add k c eid entry now) = Map_set (Map_delete (collection k c) i) eid entry"
proof -
  from oldest_loop_start[OF exps] obtain r e where
    r: "oldest_loop (expirations k c) None None = Some r" and
    mem: "(r, e) \<in> set (expirations k c)" and
    least: "\<forall>p \<in> set (expirations k c). e \<le> snd p" by blast
  from mem have "r \<in> set (Map_keys (expirations k c))" by (force simp: Map_keys_def)
  with ok have rc: "r \<in> set (Map_keys (collection k c))" and "[] \<notin> set (Map_keys (collection k c))"
    by (auto simp: store_ok_def)
  then have ne: "r \<noteq> []" by auto
  from rc have "collection k c \<noteq> []" by (auto simp: Map_keys_def)
  with r ne have "getOldestEntry (collection k c) (expirations k c) = Some r"
    by (simp add: getOldestEntry_def Map_size_def truthy_def)
  with full ne have "evicted k c = fst (remove k c r)"
    by (simp add: evicted_def truthy_def)
  then have "collection k (add k c eid entry now) = Map_set (Map_delete (collection k c) r) eid entry"
    by (simp add: add_evicted Let_def store_fields collection_remove)
  with mem least show ?thesis by blast
qed

lemma add_evicts_first_inserted_without_expirations:
  assumes ok: "store_ok k c"
    and full: "maxSize k (options c) \<le> Map_size (collection k c)"
    and exps: "expirations k c = []"
    and first: "collection k c = (i, v) # rest"
  shows "collection k (add k c eid entry now) = Map_set (Map_delete (collection k c) i) eid entry"
proof -
  from ok first have ne: "i \<noteq> []" by (auto simp: store_ok_def Map_keys_def)
  from exps first have "getOldestEntry (collection k c) (expirations k c) = Some i"
    by (simp add: getOldestEntry_def Map_size_def truthy_def Map_keys_def)
  with full ne have "evicted k c = fst (remove k c i)"
    by (simp add: evicted_def truthy_def)
  then show ?thesis
    by (simp add: add_evicted Let_def store_fields collection_remove)
qed

text \<open>The scenario of the specification: maximum size 2, no lifetime, ids a, b, c.\<close>

lemma add_a_b_c_leaves_b_c:
  "Map_keys (collection Messages
     (run (new_CacheManager (default_options\<lparr>messageCacheMaxSize := 2\<rparr>))
        [Add Messages ''a'' () 0, Add Messages ''b'' () 1, Add Messages ''c'' () 2]))
   = [''b'', ''c'']"
  by (simp add: run_def add_def getOldestEntry_def truthy_def remove_def Map_size_def
      Map_keys_def Map_has_def Map_delete_def new_CacheManager_def default_options_def Let_def)

text \<open>
  Claim C5, at an input where the code departs from it. A message store of maximum
  size 3 and lifetime 10 receives a at time 0, the empty identifier at time 1, a again
  at time 2 and b at time 3. The recorded expiration times are then 12 for a, 11 for the
  empty identifier and 13 for b. Adding c at time 4 finds the store full. The earliest
  expiration belongs to the empty identifier, which is falsy, so \<^verbatim>\<open>_getOldestEntry\<close>
  returns the first key of the collection instead, and a is evicted.
\<close>

theorem eviction_misses_earliest_expiration:
  "expirations Messages
     (run (new_CacheManager (default_options\<lparr>messageCacheMaxSize := 3, messageCacheLifetime := 10\<rparr>))
        [Add Messages ''a'' () 0, Add Messages [] () 1, Add Messages ''a'' () 2,
         Add Messages ''b'' () 3])
     = [(''a'', 12), ([], 11), (''b'', 13)] \<and>
   Map_keys (collection Messages
     (run (new_CacheManager (default_options\<lparr>messageCacheMaxSize := 3, messageCacheLifetime := 10\<rparr>))
        [Add Messages ''a'' () 0, Add Messages [] () 1, Add Messages ''a'' () 2,
         Add Messages ''b'' () 3, Add Messages ''c'' () 4]))
     = [[], ''b'', ''c'']"
  by (simp add: run_def add_def getOldestEntry_def truthy_def remove_def Map_size_def
      Map_keys_def Map_has_def Map_delete_def new_CacheManager_def default_options_def Let_def)

text \<open>
  Claim C7 (amended). In a store whose lifetime is positive, an entry added at time
  \<open>t\<close> and not added again is absent from \<^verbatim>\<open>get\<close> once a sweep has run at a time
  strictly after \<open>t + lifetime\<close>, whatever other calls come before and after that sweep.
\<close>

theorem expired_entry_absent_after_sweep:
  assumes life: "0 < lifetime k (options c)"
    and late: "t + lifetime k (options c) < now"
    and before: "\<not> list_ex (adds k eid) cs1"
    and after: "\<not> list_ex (adds k eid) cs2"
  shows "get k (run (fst (sweep (run (add k c eid entry t) cs1) now)) cs2) eid = None"
proof -
  let ?d = "t + lifetime k (options c)"
  let ?c1 = "run (add k c eid entry t) cs1"
  have "expires_by k eid ?d (add k c eid entry t)" using life by (rule expires_by_add_same)
  then have "expires_by k eid ?d ?c1" using before by (rule expires_by_run)
  moreover have "0 < lifetime k (options ?c1)" using life by (simp add: options_run options_add)
  ultimately have "\<not> Map_has (collection k (fst (sweep ?c1 now))) eid"
    using late swept_sweep[of k eid ?d ?c1 now] by simp
  then have "\<not> Map_has (collection k (run (fst (sweep ?c1 now)) cs2)) eid"
    using after by (rule absent_run)
  then show ?thesis by (simp add: get_def Map_get_None)
qed

text \<open>
  The property at a concrete run: lifetime 10, the entry added at time 0, another entry
  added at time 5, the sweep at time 11, a read afterwards.
\<close>

theorem expired_entry_absent_after_sweep_witness:
  "0 < lifetime Messages (options (new_CacheManager (default_options\<lparr>messageCacheLifetime := 10\<rparr>) :: unit CacheManager)) \<and>
   0 + lifetime Messages (options (new_CacheManager (default_options\<lparr>messageCacheLifetime := 10\<rparr>) :: unit CacheManager)) < 11 \<and>
   \<not> list_ex (adds Messages ''a'') [Add Messages ''b'' () 5] \<and>
   \<not> list_ex (adds Messages ''a'') [Get Messages ''b''] \<and>
   get Messages
     (run (fst (sweep (run (add Messages
        (new_CacheManager (default_options\<lparr>messageCacheLifetime := 10\<rparr>)) ''a'' () 0)
        [Add Messages ''b'' () 5]) 11)) [Get Messages ''b'']) ''a'' = None"
  using expired_entry_absent_after_sweep
    [where k = Messages and t = 0 and now = 11 and eid = "''a''" and entry = "()"
       and c = "new_CacheManager (default_options\<lparr>messageCacheLifetime := 10\<rparr>)"
       and ?cs1.0 = "[Add Messages ''b'' () 5]" and ?cs2.0 = "[Get Messages ''b'']"]
  by (simp add: new_CacheManager_def default_options_def)

text \<open>
  Claim C7 as stated fails at the boundary. With lifetime 10 an entry added at time 0
  expires at time 10; the sweep that runs at time 10 compares with a strict
  \<^verbatim>\<open>now > expireTime\<close> and keeps the entry, and a read at time 10 or later returns it.
\<close>

theorem expired_entry_present_at_boundary:
  "get Messages
     (fst (sweep (add Messages
        (new_CacheManager (default_options\<lparr>messageCacheLifetime := 10\<rparr>)) ''a'' () 0) 10))
     ''a'' = Some ()"
  by (simp add: sweep_def sweep_kind_def get_def Map_get_def add_def getOldestEntry_def
      truthy_def remove_def Map_size_def Map_keys_def Map_has_def Map_delete_def
      new_CacheManager_def default_options_def Let_def)

section \<open>ThrottlingManager: admission, queue order and statistics\<close>

lemmas throttle_eval =
  throttle_def wouldExceedLimit_def enqueue_def logRequest_def logError_def
  executeCallback_def handleRateLimit_def processQueue_def limitTimerFired_def
  new_ThrottlingManager_def or_default_def zero_stats_def formatRoute_def is_digit_def
  limited_def entries_of_def Map_get_def Map_has_def Map_keys_def Map_delete_def Let_def



text \<open>
  The mark of a rate limit comes from a 429 only: in a run from a new manager, a route
  that is marked has had an operation fail with status 429.
\<close>

lemma limit_mark_follows_429:
  "limited (fst (run_events (new_ThrottlingManager opts) es)) r \<Longrightarrow> list_ex (is_429_on r) es"
  using limited_run[of "new_ThrottlingManager opts" es r] by (simp add: not_limited_new)




text \<open>
  Claim C10. After every run from a new manager the statistics read by \<^verbatim>\<open>getStats\<close>
  have \<^verbatim>\<open>totalRequests\<close> equal to \<^verbatim>\<open>succeededRequests\<close>: both are incremented together
  by \<^verbatim>\<open>_logRequest\<close> before the operation is awaited. An operation that then fails adds
  one to \<^verbatim>\<open>failedRequests\<close> and takes nothing from \<^verbatim>\<open>succeededRequests\<close>, so it is
  counted as succeeded and as failed.
\<close>

theorem total_equals_succeeded:
  "totalRequests (fst (getStats (fst (run_events (new_ThrottlingManager opts) es))))
     = succeededRequests (fst (getStats (fst (run_events (new_ThrottlingManager opts) es)))) \<and>
   failedRequests (fst (getStats (fst (executeCallback_settled tm route cb (Failure code retry_after)))))
     = failedRequests (fst (getStats tm)) + 1 \<and>
   succeededRequests (fst (getStats (fst (executeCallback_settled tm route cb (Failure code retry_after)))))
     = succeededRequests (fst (getStats tm))"
proof -
  have "counted_alike (new_ThrottlingManager opts) (fst (run_events (new_ThrottlingManager opts) es))"
    by (rule counted_run)
  then have "totalRequests (stats (fst (run_events (new_ThrottlingManager opts) es)))
      = succeededRequests (stats (fst (run_events (new_ThrottlingManager opts) es)))"
    by (simp add: counted_alike_def new_ThrottlingManager_def zero_stats_def)
  then show ?thesis
    using failure_counted_as_failed[of tm route cb code retry_after]
    by (simp add: getStats_def)
qed

text \<open>
  The counters at a concrete run: one operation is called and fails with status 500. It
  is the only request, and it is counted once as succeeded and once as failed.
\<close>

theorem total_equals_succeeded_witness:
  "fst (getStats (fst (run_events (new_ThrottlingManager one_a_minute)
      [Throttle ''GET /x'' ''A'' 0, Settled ''GET /x'' ''A'' (Failure (Some 500) None)])))
   = \<lparr> totalRequests = 1, throttledRequests = 0, succeededRequests = 1, failedRequests = 1,
       lastRequest = Some 0 \<rparr>"
  using total_equals_succeeded
    [where opts = one_a_minute
       and es = "[Throttle ''GET /x'' ''A'' 0, Settled ''GET /x'' ''A'' (Failure (Some 500) None)]"]
  by (simp add: throttle_eval one_a_minute_def getStats_def)

section \<open>RESTManager: the rate-limit check, retries after 429 and the errors of a call\<close>

lemmas rest_eval =
  rest_make_def upper_def processRateLimit_def header_def parseInt_def read_unsigned_def
  digit_of_def is_space_def backoff_def new_RESTManager_def first_truthy_def
  rest_handleRateLimit_def getAPIRoute_def is_digit_def Map_get_def Let_def

lemmas client_manager_eval =
  client_manager_def client_rest_options_def no_rest_options_def plain_success_def get_x_def

text \<open>
  The check before a request, where it runs: for a route whose entry is marked limited
  and whose reset time lies ahead, \<^verbatim>\<open>_handleRateLimit\<close> waits for
  \<^verbatim>\<open>reset - now + restTimeOffset\<close> milliseconds, so the request goes on at
  \<^verbatim>\<open>reset + restTimeOffset\<close> at the earliest.
\<close>

lemma pre_send_check_resumes_after_reset:
  assumes "Map_get (rateLimits rm) (getAPIRoute config) = Some rateLimitInfo"
    and "info_limited rateLimitInfo = Some True"
    and "info_reset rateLimitInfo = Some reset_time"
    and "now < reset_time"
    and "0 \<le> restTimeOffset rm"
  shows "rest_handleRateLimit rm config now = [Waited (Some (reset_time - now + restTimeOffset rm))] \<and>
         now + waited_at_least (rest_handleRateLimit rm config now) = reset_time + restTimeOffset rm"
  using assms by (simp add: rest_handleRateLimit_def max_def)

text \<open>
  Claim C1, at inputs where the code departs from it. \<^verbatim>\<open>_request\<close> calls the HTTP
  library directly; the check above is installed on the instance \<^verbatim>\<open>this.api\<close> only,
  which \<^verbatim>\<open>_request\<close> does not use. A first call through \<^verbatim>\<open>make\<close> receives a response
  whose headers say that the bucket has no request remaining until second 9000; the
  table records it. A second call to the same path, made before that time, sends its
  request without waiting. The same holds for a manager whose table marks the route as
  limited until time 5000: at time 1000 the check would wait 4500 milliseconds, and
  \<^verbatim>\<open>_request\<close> sends at once.
\<close>

theorem request_sent_without_rate_limit_check:
  "Map_get (rateLimits (fst (rest_make client_manager ''get'' ''/x'' [] [(Responded last_of_bucket, 0)])))
      ''abc''
     = Some \<lparr> info_limited = None, info_limit = None, info_remaining = Some 0,
              info_reset = Some 9000000, info_path = Some ''api/x'' \<rparr> \<and>
   fst (snd (rest_make (fst (rest_make client_manager ''get'' ''/x'' [] [(Responded last_of_bucket, 0)]))
               ''get'' ''/x'' [] [(Responded plain_success, 0)])) = [Sent] \<and>
   rest_handleRateLimit limited_manager get_x 1000 = [Waited (Some 4500)] \<and>
   fst (snd (request limited_manager get_x 0 [(Responded plain_success, 0)])) = [Sent]"
  by (simp add: rest_eval client_manager_eval last_of_bucket_def limited_manager_def)

text \<open>Whatever the table holds, the first thing \<^verbatim>\<open>_request\<close> does is to send.\<close>

lemma request_never_waits_first:
  "fst (snd (request rm opts retryCount env)) = [] \<or>
   hd (fst (snd (request rm opts retryCount env))) = Sent"
  by (rule request_starts_by_sending)

text \<open>
  The scenario of the specification: one response with status 429 and
  \<^verbatim>\<open>retry-after: 2\<close>, then a success. The call resolves after one retry and a wait of
  2000 milliseconds.
\<close>

lemma one_429_then_success:
  "request client_manager get_x 0 [(Responded too_many_requests, 0), (Responded plain_success, 0)]
     = (client_manager, [Sent, Waited (Some 2000), Sent], Some (Resolves ''second'')) \<and>
   sent_count [Sent, Waited (Some 2000), Sent] = 2 \<and>
   waited_at_least [Sent, Waited (Some 2000), Sent] = 2000"
  by (simp add: rest_eval client_manager_eval too_many_requests_def sent_count_def)

text \<open>
  Claim C2, at an input where the code departs from it. The manager has a retry limit
  of 1. Two responses with status 429 arrive, then a success. \<^verbatim>\<open>_handleResponse\<close>
  retries after a 429 with the retry count it was given, so the call is retried twice and
  resolves. For every number of 429 responses the call is retried that many times
  (\<open>retried_after_every_429\<close>).
\<close>

theorem rate_limit_retries_not_counted:
  "retryLimit client_manager = 1 \<and>
   request client_manager get_x 0
     [(Responded too_many_requests, 0), (Responded too_many_requests, 0),
      (Responded plain_success, 0)]
     = (client_manager, [Sent, Waited (Some 2000), Sent, Waited (Some 2000), Sent],
        Some (Resolves ''second''))"
  by (simp add: rest_eval client_manager_eval too_many_requests_def)

text \<open>
  Claim C8 (amended). A call through \<^verbatim>\<open>_request\<close> settles once the HTTP library has
  produced more endings other than a 429 response than retries are left. It then
  resolves with the data of a response whose status is between 200 and 299, or is
  rejected with one of the errors the manager creates (\<^verbatim>\<open>UNAUTHORIZED\<close>, \<^verbatim>\<open>FORBIDDEN\<close>,
  \<^verbatim>\<open>NOT_FOUND\<close>, \<^verbatim>\<open>SERVER_ERROR\<close>, \<^verbatim>\<open>REQUEST_TIMEOUT\<close>, \<^verbatim>\<open>UNKNOWN_ERROR\<close> with the
  status), or with the error that the HTTP library raised before a request was made,
  passed on unchanged.
\<close>

theorem request_settles_with_known_error:
  assumes "nat (retryLimit rm - retryCount) < length (filter other_than_429 env)"
  shows "\<exists>out. snd (snd (request rm opts retryCount env)) = Some out \<and>
           (case out of
              Resolves d \<Rightarrow>
                \<exists>response random. (Responded response, random) \<in> set env \<and>
                   200 \<le> status response \<and> status response < 300 \<and> d = data response
            | Rejects e \<Rightarrow> catalogued e \<or> (\<exists>x. e = Raw x \<and> x \<in> set (setup_errors env)))"
proof -
  from settles(1)[OF assms] obtain out where
    out: "snd (snd (request rm opts retryCount env)) = Some out" ..
  show ?thesis
  proof (cases out)
    case (Resolves d)
    with out resolution_is_response_data(1)[of rm opts retryCount env d] show ?thesis by auto
  next
    case (Rejects e)
    with out rejection_kinds(1)[of rm opts retryCount env e] show ?thesis by auto
  qed
qed

text \<open>
  The property at a concrete call: no response to the first request, a success to the
  second, with a retry limit of 1.
\<close>

theorem request_settles_with_known_error_witness:
  "nat (retryLimit client_manager - 0)
     < length (filter other_than_429 [(NoResponse, 7), (Responded plain_success, 0)]) \<and>
   snd (snd (request client_manager get_x 0 [(NoResponse, 7), (Responded plain_success, 0)]))
     = Some (Resolves ''second'')"
  using request_settles_with_known_error
    [where rm = client_manager and retryCount = 0 and opts = get_x
       and env = "[(NoResponse, 7), (Responded plain_success, 0)]"]
  by (simp add: rest_eval client_manager_eval)

text \<open>
  Claim C8 as stated fails. When the HTTP library raises an error before a request is
  made, the error has neither a response nor a request, and \<^verbatim>\<open>_request\<close> passes it on
  as it is.
\<close>

theorem request_rejects_with_raw_error:
  "request client_manager get_x 0 [(SetupFailed ''Invalid URL'', 0)]
     = (client_manager, [], Some (Rejects (Raw ''Invalid URL'')))"
  by simp

section \<open>Client: heartbeats after HELLO\<close>




end
